theory Spec2Isabelle
  imports Main "HOL-Library.Sublist"
begin

section \<open>Data model\<close>

text \<open>
  The program is \<^verbatim>\<open>main.go\<close>: the three methods \<^verbatim>\<open>Group\<close>, \<^verbatim>\<open>Project\<close> and
  \<^verbatim>\<open>gitClone\<close> of \<^verbatim>\<open>RepoCloner\<close>, and the two loops that end \<^verbatim>\<open>main\<close>.

  Go's \<^verbatim>\<open>int\<close> identifiers are only compared, never computed with, so they are \<open>int\<close>.
  A GitLab group and project are records of the three, respectively two, fields the
  program reads.
\<close>

record project =
  project_ID :: int
  project_Path :: string
  project_SSHURLToRepo :: string

record group =
  group_ID :: int
  group_FullPath :: string

text \<open>
  \<^verbatim>\<open>gitlab.ListOptions\<close>. The program sets three fields; \<^verbatim>\<open>Page\<close> keeps Go's zero
  value, which the client leaves out of the request, so that the service answers with
  its first page.
\<close>

record ListOptions =
  Page :: int
  PerPage :: int
  OrderBy :: string
  Sort :: string

definition listOptions :: ListOptions where
  "listOptions = \<lparr>Page = 0, PerPage = 1000, OrderBy = ''name'', Sort = ''asc''\<rparr>"

text \<open>
  Errors are values. An error of the GitLab client is known to the program only through
  its message (\<^verbatim>\<open>err.Error()\<close>). Of the errors of go-git the program tells two sentinels
  apart with \<^verbatim>\<open>errors.Is\<close>.
\<close>

datatype api_error = ApiError string

datatype git_error =
    ErrRepositoryAlreadyExists
  | NoErrAlreadyUpToDate
  | GitError string

fun api_error_string :: "api_error \<Rightarrow> string" where
  "api_error_string (ApiError m) = m"

fun git_error_string :: "git_error \<Rightarrow> string" where
  "git_error_string ErrRepositoryAlreadyExists = ''repository already exists''"
| "git_error_string NoErrAlreadyUpToDate = ''already up-to-date''"
| "git_error_string (GitError m) = m"

text \<open>
  The GitLab client, as far as the program calls it: four requests. The remote side is
  one snapshot for the whole run, so the requests are functions of their arguments.
\<close>

record api =
  GetGroup :: "int \<Rightarrow> ListOptions \<Rightarrow> api_error + group"
  ListGroupProjects :: "int \<Rightarrow> ListOptions \<Rightarrow> api_error + project list"
  ListSubGroups :: "int \<Rightarrow> ListOptions \<Rightarrow> api_error + group list"
  GetProject :: "int \<Rightarrow> api_error + project"

text \<open>
  The go-git calls. \<^verbatim>\<open>PlainClone\<close> and \<^verbatim>\<open>Pull\<close> change the world \<open>'w\<close> (the local
  disk, and whatever they read from upstream); \<^verbatim>\<open>PlainOpen\<close> only reads it, and
  \<^verbatim>\<open>Worktree\<close> only inspects the opened repository. A repository or worktree handle is
  a string. The library is a parameter of the model: every theorem that names \<open>be\<close>
  holds for any implementation of it.
\<close>

datatype writer = Discard | Stdout

record CloneOptions =
  clone_URL :: string
  clone_Auth :: string
  clone_Progress :: writer

record PullOptions =
  pull_RemoteName :: string
  pull_Force :: bool
  pull_Progress :: writer

record 'w git =
  PlainClone :: "string \<Rightarrow> bool \<Rightarrow> CloneOptions \<Rightarrow> 'w \<Rightarrow> git_error option \<times> 'w"
  PlainOpen :: "string \<Rightarrow> 'w \<Rightarrow> git_error + string"
  Worktree :: "string \<Rightarrow> git_error + string"
  Pull :: "string \<Rightarrow> PullOptions \<Rightarrow> 'w \<Rightarrow> git_error option \<times> 'w"

record RepoCloner =
  destDir :: string
  client :: api
  auth :: string
  ignoreProjectIDs :: "int list"
  ignoreGroupIDs :: "int list"
  progress :: writer

text \<open>
  What a run does is observed as a trace: the structured log lines, the requests sent
  to GitLab and the go-git calls, oldest first. The two go-git calls whose error the
  program inspects are recorded with the error they returned.
\<close>

datatype level = LevelInfo | LevelWarn | LevelError

datatype attr = IntAttr string int | StringAttr string string

datatype event =
    Log level string "attr list"
  | CallGetGroup int ListOptions
  | CallListGroupProjects int ListOptions
  | CallListSubGroups int ListOptions
  | CallGetProject int
  | CallPlainClone string bool CloneOptions "git_error option"
  | CallPlainOpen string
  | CallWorktree string
  | CallPull string PullOptions "git_error option"

record 'w state =
  world :: 'w
  trace :: "event list"

definition emit :: "event \<Rightarrow> 'w state \<Rightarrow> 'w state" where
  "emit e s = s\<lparr>trace := trace s @ [e]\<rparr>"

section \<open>The standard library's path.Join\<close>

text \<open>
  \<^verbatim>\<open>path.Join\<close> concatenates its non-empty arguments with a slash between them and
  returns \<^verbatim>\<open>path.Clean\<close> of that, or the empty string when every argument is empty.
  \<^verbatim>\<open>path.Clean\<close> works on the elements between slashes: it drops empty elements and
  \<^verbatim>\<open>.\<close>, lets \<^verbatim>\<open>..\<close> remove the element before it (at the start of a rooted path
  \<^verbatim>\<open>..\<close> is dropped, at the start of a relative one it stays), and returns \<^verbatim>\<open>.\<close> for
  an empty result.
\<close>

fun split_slash :: "string \<Rightarrow> string list" where
  "split_slash [] = [[]]"
| "split_slash (c # cs) =
     (if c = CHR ''/'' then [] # split_slash cs
      else (case split_slash cs of [] \<Rightarrow> [[c]] | e # es \<Rightarrow> (c # e) # es))"

fun join_slash :: "string list \<Rightarrow> string" where
  "join_slash [] = []"
| "join_slash [e] = e"
| "join_slash (e # es) = e @ CHR ''/'' # join_slash es"

text \<open>The elements kept so far are held newest first.\<close>

fun clean_elems :: "bool \<Rightarrow> string list \<Rightarrow> string list \<Rightarrow> string list" where
  "clean_elems rooted out [] = rev out"
| "clean_elems rooted out (e # es) =
     (if e = [] \<or> e = ''.'' then clean_elems rooted out es
      else if e = ''..'' then
        (case out of
           [] \<Rightarrow> if rooted then clean_elems rooted out es else clean_elems rooted [e] es
         | t # ts \<Rightarrow> if t = ''..'' then clean_elems rooted (e # out) es
                     else clean_elems rooted ts es)
      else clean_elems rooted (e # out) es)"

definition Clean :: "string \<Rightarrow> string" where
  "Clean p =
     (if p = [] then ''.''
      else let rooted = (hd p = CHR ''/'');
               body = join_slash (clean_elems rooted [] (split_slash p));
               res = (if rooted then CHR ''/'' # body else body)
           in if res = [] then ''.'' else res)"

definition path_Join :: "string list \<Rightarrow> string" where
  "path_Join elem =
     (if concat elem = [] then []
      else Clean (join_slash (filter (\<lambda>e. e \<noteq> []) elem)))"

section \<open>The Sync Primitive: gitClone\<close>

text \<open>
  A call of the library is the library's function on the world, followed by the entry
  in the trace.
\<close>

definition call_PlainClone ::
  "'w git \<Rightarrow> string \<Rightarrow> bool \<Rightarrow> CloneOptions \<Rightarrow> 'w state \<Rightarrow> git_error option \<times> 'w state" where
  "call_PlainClone be p isBare opts s =
     (case PlainClone be p isBare opts (world s) of
        (err, w) \<Rightarrow> (err, \<lparr>world = w, trace = trace s @ [CallPlainClone p isBare opts err]\<rparr>))"

definition call_PlainOpen ::
  "'w git \<Rightarrow> string \<Rightarrow> 'w state \<Rightarrow> (git_error + string) \<times> 'w state" where
  "call_PlainOpen be p s = (PlainOpen be p (world s), emit (CallPlainOpen p) s)"

definition call_Worktree ::
  "'w git \<Rightarrow> string \<Rightarrow> 'w state \<Rightarrow> (git_error + string) \<times> 'w state" where
  "call_Worktree be repo s = (Worktree be repo, emit (CallWorktree repo) s)"

definition call_Pull ::
  "'w git \<Rightarrow> string \<Rightarrow> PullOptions \<Rightarrow> 'w state \<Rightarrow> git_error option \<times> 'w state" where
  "call_Pull be work opts s =
     (case Pull be work opts (world s) of
        (err, w) \<Rightarrow> (err, \<lparr>world = w, trace = trace s @ [CallPull work opts err]\<rparr>))"

text \<open>
  \<^verbatim>\<open>err != nil && !errors.Is(err, target)\<close>, and \<^verbatim>\<open>err.Error()\<close> behind that test.
  The errors of the model are not wrapped, so \<^verbatim>\<open>errors.Is\<close> is equality with the sentinel.
\<close>

definition failed_other_than :: "git_error \<Rightarrow> git_error option \<Rightarrow> bool" where
  "failed_other_than target err = (err \<noteq> None \<and> err \<noteq> Some target)"

fun error_attr :: "git_error option \<Rightarrow> attr list" where
  "error_attr (Some e) = [StringAttr ''error'' (git_error_string e)]"
| "error_attr None = []"

text \<open>
  \<^verbatim>\<open>func (rc *RepoCloner) gitClone(project *gitlab.Project, dest string)\<close>, statement
  by statement. Every \<^verbatim>\<open>return\<close> of the source is a branch that hands back the state
  reached so far.
\<close>

definition gitClone :: "'w git \<Rightarrow> RepoCloner \<Rightarrow> project \<Rightarrow> string \<Rightarrow> 'w state \<Rightarrow> 'w state" where
  "gitClone be rc project dest s =
     (let subPath = path_Join [dest, project_Path project];
          attrs = [IntAttr ''project_id'' (project_ID project), StringAttr ''path'' subPath];
          s1 = emit (Log LevelInfo ''get repo'' attrs) s;
          subPath = path_Join [destDir rc, subPath];
          copts = \<lparr>clone_URL = project_SSHURLToRepo project, clone_Auth = auth rc,
                   clone_Progress = progress rc\<rparr>;
          popts = \<lparr>pull_RemoteName = ''origin'', pull_Force = True,
                   pull_Progress = progress rc\<rparr>
      in case call_PlainClone be subPath False copts s1 of (err, s2) \<Rightarrow>
         if failed_other_than ErrRepositoryAlreadyExists err then
           emit (Log LevelError ''clone repo error'' (attrs @ error_attr err)) s2
         else
           (case call_PlainOpen be subPath s2 of
              (Inl err, s3) \<Rightarrow>
                emit (Log LevelError ''open repo error'' (attrs @ error_attr (Some err))) s3
            | (Inr repo, s3) \<Rightarrow>
                (case call_Worktree be repo s3 of
                   (Inl err, s4) \<Rightarrow>
                     emit (Log LevelError ''worktree repo error''
                            (attrs @ error_attr (Some err))) s4
                 | (Inr work, s4) \<Rightarrow>
                     (case call_Pull be work popts s4 of (err, s5) \<Rightarrow>
                        if failed_other_than NoErrAlreadyUpToDate err then
                          emit (Log LevelError ''pull repo error'' (attrs @ error_attr err)) s5
                        else s5))))"

section \<open>The Traversal Engine: Group, Project and the run\<close>

text \<open>
  A \<^verbatim>\<open>for ... range\<close> loop whose body may not return: the loop returns when every
  iteration has.
\<close>

fun forEach :: "('a \<Rightarrow> 's \<Rightarrow> 's option) \<Rightarrow> 'a list \<Rightarrow> 's \<Rightarrow> 's option" where
  "forEach body [] s = Some s"
| "forEach body (x # xs) s =
     (case body x s of None \<Rightarrow> None | Some s' \<Rightarrow> forEach body xs s')"

text \<open>
  \<^verbatim>\<open>func (rc *RepoCloner) Group(groupID int)\<close>. The method calls itself for every
  subgroup the service lists, and nothing in it bounds the depth: the model takes the
  depth it may use as fuel, and \<open>None\<close> says that the call did not return within it.
\<close>

fun Group :: "'w git \<Rightarrow> RepoCloner \<Rightarrow> nat \<Rightarrow> int \<Rightarrow> 'w state \<Rightarrow> 'w state option" where
  "Group be rc 0 groupID s = None"
| "Group be rc (Suc fuel) groupID s =
     (let attrs = [IntAttr ''group_id'' groupID] in
      if groupID \<in> set (ignoreGroupIDs rc) then
        Some (emit (Log LevelWarn ''ignore group'' attrs) s)
      else
        let s1 = emit (CallGetGroup groupID listOptions) s in
        case GetGroup (client rc) groupID listOptions of
          Inl err \<Rightarrow>
            Some (emit (Log LevelError ''get group error''
                         (attrs @ [StringAttr ''error'' (api_error_string err)])) s1)
        | Inr grp \<Rightarrow>
            let attrs = attrs @ [StringAttr ''group'' (group_FullPath grp)];
                s2 = emit (Log LevelInfo ''get group repos'' attrs) s1;
                s3 = emit (CallListGroupProjects (group_ID grp) listOptions) s2
            in case ListGroupProjects (client rc) (group_ID grp) listOptions of
                 Inl err \<Rightarrow>
                   Some (emit (Log LevelError ''list projects error''
                                (attrs @ [StringAttr ''error'' (api_error_string err)])) s3)
               | Inr projects \<Rightarrow>
                   let s4 = fold (\<lambda>project. gitClone be rc project (group_FullPath grp))
                              projects s3;
                       s5 = emit (CallListSubGroups (group_ID grp) listOptions) s4
                   in case ListSubGroups (client rc) (group_ID grp) listOptions of
                        Inl err \<Rightarrow>
                          Some (emit (Log LevelError ''list subgroups error''
                                       (attrs @ [StringAttr ''error'' (api_error_string err)])) s5)
                      | Inr groups \<Rightarrow>
                          forEach (\<lambda>subgroup s'. Group be rc fuel (group_ID subgroup) s') groups s5)"

text \<open>\<^verbatim>\<open>func (rc *RepoCloner) Project(projectID int)\<close>.\<close>

definition Project :: "'w git \<Rightarrow> RepoCloner \<Rightarrow> int \<Rightarrow> 'w state \<Rightarrow> 'w state" where
  "Project be rc projectID s =
     (let attrs = [IntAttr ''project_id'' projectID] in
      if projectID \<in> set (ignoreProjectIDs rc) then
        emit (Log LevelWarn ''ignore project'' attrs) s
      else
        let s1 = emit (CallGetProject projectID) s in
        case GetProject (client rc) projectID of
          Inl err \<Rightarrow>
            emit (Log LevelError ''get project error''
                   (attrs @ [StringAttr ''error'' (api_error_string err)])) s1
        | Inr project \<Rightarrow> gitClone be rc project [] s1)"

text \<open>
  The two loops that end \<^verbatim>\<open>main\<close>: every root group, then every root project. What
  \<^verbatim>\<open>main\<close> does before them (flags, client, credentials) only builds \<open>rc\<close> and the two
  lists.
\<close>

definition run ::
  "'w git \<Rightarrow> RepoCloner \<Rightarrow> nat \<Rightarrow> int list \<Rightarrow> int list \<Rightarrow> 'w state \<Rightarrow> 'w state option" where
  "run be rc fuel groupIDs projectIDs s =
     (case forEach (\<lambda>gid s'. Group be rc fuel gid s') groupIDs s of
        None \<Rightarrow> None
      | Some s' \<Rightarrow> Some (fold (\<lambda>pid. Project be rc pid) projectIDs s'))"

section \<open>A version-control backend\<close>

text \<open>
  Modelled from the spec: the version-control library (go-git's \<^verbatim>\<open>PlainClone\<close>,
  \<^verbatim>\<open>PlainOpen\<close>, \<^verbatim>\<open>Worktree\<close> and \<^verbatim>\<open>Pull\<close>) is not part of the repository. The spec
  asks of it a clone that tells "already exists" from other failures and an update, with
  a remote name and a force flag, that tells "already up to date" from other failures.
  Within that contract the model follows what the library does: a pull fetches and then
  only ever fast-forwards, and the force flag does not enter that step.

  A local repository is its remotes, the upstream history its last fetch saw, the
  history of its branch, the history whose tip its files were checked out from, and the
  tracked files with uncommitted changes. Histories are lists of commits, oldest first.
  The world is the local disk and the histories upstream.
\<close>

record repository =
  remotes :: "(string \<times> string) list"
  tracking :: "string list"
  commits :: "string list"
  checkout :: "string list"
  edits :: "string list"

record vcs =
  disk :: "string \<rightharpoonup> repository"
  upstream :: "string \<rightharpoonup> string list"

text \<open>
  Modelled from the spec: the clone. A destination that holds a repository is
  "already exists". Otherwise the upstream history is copied, checked out and
  remembered as the state of \<^verbatim>\<open>origin\<close>; when upstream is missing or has no commit the
  clone fails and leaves the disk as it was.
\<close>

definition fresh_clone :: "string \<Rightarrow> string list \<Rightarrow> repository" where
  "fresh_clone url h =
     \<lparr>remotes = [(''origin'', url)], tracking = h, commits = h, checkout = h, edits = []\<rparr>"

definition vcs_PlainClone ::
  "string \<Rightarrow> bool \<Rightarrow> CloneOptions \<Rightarrow> vcs \<Rightarrow> git_error option \<times> vcs" where
  "vcs_PlainClone p isBare opts w =
     (case disk w p of
        Some r \<Rightarrow> (Some ErrRepositoryAlreadyExists, w)
      | None \<Rightarrow>
          (case upstream w (clone_URL opts) of
             None \<Rightarrow> (Some (GitError ''repository not found''), w)
           | Some h \<Rightarrow>
               if h = [] then (Some (GitError ''remote repository is empty''), w)
               else (None, w\<lparr>disk := (disk w)(p \<mapsto> fresh_clone (clone_URL opts) h)\<rparr>)))"

text \<open>Modelled from the spec: opening the repository at a path, and its worktree.\<close>

definition vcs_PlainOpen :: "string \<Rightarrow> vcs \<Rightarrow> git_error + string" where
  "vcs_PlainOpen p w =
     (case disk w p of
        None \<Rightarrow> Inl (GitError ''repository does not exist'')
      | Some r \<Rightarrow> Inr p)"

definition vcs_Worktree :: "string \<Rightarrow> git_error + string" where
  "vcs_Worktree repo = Inr repo"

text \<open>
  Modelled from the spec: the update from the named remote. The fetch records the
  upstream history. When it brought nothing new and the branch already contains that
  history the answer is "already up to date" and nothing has changed. A branch that
  upstream does not extend is refused as a non-fast-forward update, forced or not, and
  keeps its commits. Otherwise the branch is moved to the upstream history and the files
  are checked out, unless tracked files have uncommitted changes: then the checkout is
  refused and the files stay as they were. Uncommitted changes are never discarded.
\<close>

definition vcs_Pull :: "string \<Rightarrow> PullOptions \<Rightarrow> vcs \<Rightarrow> git_error option \<times> vcs" where
  "vcs_Pull work opts w =
     (case disk w work of
        None \<Rightarrow> (Some (GitError ''repository does not exist''), w)
      | Some r \<Rightarrow>
          (case map_of (remotes r) (pull_RemoteName opts) of
             None \<Rightarrow> (Some (GitError ''remote not found''), w)
           | Some url \<Rightarrow>
               (case upstream w url of
                  None \<Rightarrow> (Some (GitError ''repository not found''), w)
                | Some h \<Rightarrow>
                    if h = [] then (Some (GitError ''remote repository is empty''), w)
                    else if tracking r = h \<and> prefix h (commits r) then
                      (Some NoErrAlreadyUpToDate, w)
                    else if \<not> prefix (commits r) h then
                      (Some (GitError ''non-fast-forward update''),
                       w\<lparr>disk := (disk w)(work \<mapsto> r\<lparr>tracking := h\<rparr>)\<rparr>)
                    else if edits r \<noteq> [] then
                      (Some (GitError ''worktree contains unstaged changes''),
                       w\<lparr>disk := (disk w)(work \<mapsto> r\<lparr>tracking := h, commits := h\<rparr>)\<rparr>)
                    else
                      (None,
                       w\<lparr>disk := (disk w)(work \<mapsto>
                            r\<lparr>tracking := h, commits := h, checkout := h\<rparr>)\<rparr>))))"

definition vcs_git :: "vcs git" where
  "vcs_git = \<lparr>PlainClone = vcs_PlainClone, PlainOpen = vcs_PlainOpen,
              Worktree = vcs_Worktree, Pull = vcs_Pull\<rparr>"

section \<open>Notions used to state the properties\<close>

text \<open>
  The values \<^verbatim>\<open>gitClone\<close> computes before its first call: the log attributes, the
  destination path and the two option structs.
\<close>

definition repo_attrs :: "project \<Rightarrow> string \<Rightarrow> attr list" where
  "repo_attrs project dest =
     [IntAttr ''project_id'' (project_ID project),
      StringAttr ''path'' (path_Join [dest, project_Path project])]"

definition repo_path :: "RepoCloner \<Rightarrow> project \<Rightarrow> string \<Rightarrow> string" where
  "repo_path rc project dest = path_Join [destDir rc, path_Join [dest, project_Path project]]"

definition clone_opts :: "RepoCloner \<Rightarrow> project \<Rightarrow> CloneOptions" where
  "clone_opts rc project =
     \<lparr>clone_URL = project_SSHURLToRepo project, clone_Auth = auth rc,
      clone_Progress = progress rc\<rparr>"

definition pull_opts :: "RepoCloner \<Rightarrow> PullOptions" where
  "pull_opts rc =
     \<lparr>pull_RemoteName = ''origin'', pull_Force = True, pull_Progress = progress rc\<rparr>"

text \<open>The state of \<^verbatim>\<open>gitClone\<close> when \<^verbatim>\<open>git.PlainClone\<close> has returned.\<close>

definition after_clone ::
  "'w git \<Rightarrow> RepoCloner \<Rightarrow> project \<Rightarrow> string \<Rightarrow> 'w state \<Rightarrow> git_error option \<times> 'w state" where
  "after_clone be rc project dest s =
     call_PlainClone be (repo_path rc project dest) False (clone_opts rc project)
       (emit (Log LevelInfo ''get repo'' (repo_attrs project dest)) s)"

text \<open>The first three entries every \<^verbatim>\<open>gitClone\<close> adds to the trace once it gets past the clone.\<close>

definition clone_events ::
  "RepoCloner \<Rightarrow> project \<Rightarrow> string \<Rightarrow> git_error option \<Rightarrow> event list" where
  "clone_events rc project dest err =
     [Log LevelInfo ''get repo'' (repo_attrs project dest),
      CallPlainClone (repo_path rc project dest) False (clone_opts rc project) err]"

text \<open>
  What one \<^verbatim>\<open>gitClone\<close> call may add to the trace: log lines that start with its two
  attributes, the clone and the open of its destination path, and a pull with the
  options the source writes.
\<close>

fun sync_event :: "RepoCloner \<Rightarrow> project \<Rightarrow> string \<Rightarrow> event \<Rightarrow> bool" where
  "sync_event rc p dest (Log l m a) = (take 2 a = repo_attrs p dest)"
| "sync_event rc p dest (CallPlainClone pth isBare opts r) =
     (pth = repo_path rc p dest \<and> \<not> isBare \<and> opts = clone_opts rc p)"
| "sync_event rc p dest (CallPlainOpen pth) = (pth = repo_path rc p dest)"
| "sync_event rc p dest (CallWorktree repo) = True"
| "sync_event rc p dest (CallPull work opts r) = (opts = pull_opts rc)"
| "sync_event rc p dest (CallGetGroup i opts) = False"
| "sync_event rc p dest (CallListGroupProjects i opts) = False"
| "sync_event rc p dest (CallListSubGroups i opts) = False"
| "sync_event rc p dest (CallGetProject i) = False"

text \<open>The entries a call adds, and whether one of them is an error line.\<close>

definition sync_events ::
  "'w git \<Rightarrow> RepoCloner \<Rightarrow> project \<Rightarrow> string \<Rightarrow> 'w state \<Rightarrow> event list" where
  "sync_events be rc project dest s =
     drop (length (trace s)) (trace (gitClone be rc project dest s))"



text \<open>
  The remote as the traversal sees it. A project is listed under a group when the first
  answer to the project listing of that group, asked with \<open>listOptions\<close>, contains it; a
  group identifier is a listed subgroup when such an answer to a subgroup listing
  contains it. The hierarchy is the relation between a group and the subgroups listed
  for it.
\<close>

definition listed_project :: "RepoCloner \<Rightarrow> group \<Rightarrow> project \<Rightarrow> bool" where
  "listed_project rc g p =
     (\<exists>i ps. GetGroup (client rc) i listOptions = Inr g
        \<and> ListGroupProjects (client rc) (group_ID g) listOptions = Inr ps \<and> p \<in> set ps)"

definition listed_subgroup :: "RepoCloner \<Rightarrow> int \<Rightarrow> bool" where
  "listed_subgroup rc i =
     (\<exists>j gs sg. ListSubGroups (client rc) j listOptions = Inr gs \<and> sg \<in> set gs
        \<and> group_ID sg = i)"

definition subgroup_rel :: "RepoCloner \<Rightarrow> (int \<times> int) set" where
  "subgroup_rel rc =
     {(c, p). \<exists>g gs sg. GetGroup (client rc) p listOptions = Inr g
        \<and> ListSubGroups (client rc) (group_ID g) listOptions = Inr gs
        \<and> sg \<in> set gs \<and> c = group_ID sg}"

text \<open>
  What a traversal from a root group may add to the trace: requests that carry
  \<open>listOptions\<close>, for the root or for a listed subgroup, and go-git calls for a listed
  project at the path built from its group.
\<close>

fun traversal_event :: "RepoCloner \<Rightarrow> int \<Rightarrow> event \<Rightarrow> bool" where
  "traversal_event rc root (Log l m a) = True"
| "traversal_event rc root (CallGetGroup i opts) =
     (opts = listOptions \<and> (i = root \<or> listed_subgroup rc i))"
| "traversal_event rc root (CallListGroupProjects i opts) = (opts = listOptions)"
| "traversal_event rc root (CallListSubGroups i opts) = (opts = listOptions)"
| "traversal_event rc root (CallGetProject i) = False"
| "traversal_event rc root (CallPlainClone pth isBare opts r) =
     (\<exists>g p. listed_project rc g p \<and> pth = repo_path rc p (group_FullPath g)
        \<and> opts = clone_opts rc p)"
| "traversal_event rc root (CallPlainOpen pth) =
     (\<exists>g p. listed_project rc g p \<and> pth = repo_path rc p (group_FullPath g))"
| "traversal_event rc root (CallWorktree repo) = True"
| "traversal_event rc root (CallPull work opts r) = (opts = pull_opts rc)"

text \<open>
  A group has had its turn in a stretch of the trace when, unless it is excluded, its
  metadata was requested there, and, if the metadata and the project listing arrive,
  every project listed for it was handed to \<^verbatim>\<open>git.PlainClone\<close> at its path.
\<close>

definition cloned_at :: "RepoCloner \<Rightarrow> project \<Rightarrow> string \<Rightarrow> event list \<Rightarrow> bool" where
  "cloned_at rc p dest t =
     (\<exists>r. CallPlainClone (repo_path rc p dest) False (clone_opts rc p) r \<in> set t)"

definition visited :: "RepoCloner \<Rightarrow> int \<Rightarrow> event list \<Rightarrow> bool" where
  "visited rc i t =
     (i \<notin> set (ignoreGroupIDs rc) \<longrightarrow>
        CallGetGroup i listOptions \<in> set t
        \<and> (\<forall>g ps. GetGroup (client rc) i listOptions = Inr g
              \<longrightarrow> ListGroupProjects (client rc) (group_ID g) listOptions = Inr ps
              \<longrightarrow> (\<forall>p \<in> set ps. cloned_at rc p (group_FullPath g) t)))"

text \<open>
  The groups a traversal from a root gets to: the root, and every subgroup listed for a
  group it gets to whose three requests succeed.
\<close>

inductive reaches :: "RepoCloner \<Rightarrow> int \<Rightarrow> int \<Rightarrow> bool" for rc :: RepoCloner where
  here: "reaches rc i i"
| below: "root \<notin> set (ignoreGroupIDs rc)
     \<Longrightarrow> GetGroup (client rc) root listOptions = Inr g
     \<Longrightarrow> ListGroupProjects (client rc) (group_ID g) listOptions = Inr ps
     \<Longrightarrow> ListSubGroups (client rc) (group_ID g) listOptions = Inr gs
     \<Longrightarrow> sg \<in> set gs
     \<Longrightarrow> reaches rc (group_ID sg) i
     \<Longrightarrow> reaches rc root i"

text \<open>
  The entries \<^verbatim>\<open>Group\<close> adds before the first project of a group whose metadata arrived,
  and the stretches of trace that are one complete call of \<^verbatim>\<open>Group\<close>.
\<close>

definition group_attrs :: "int \<Rightarrow> group \<Rightarrow> attr list" where
  "group_attrs groupID g =
     [IntAttr ''group_id'' groupID, StringAttr ''group'' (group_FullPath g)]"

definition enter_events :: "int \<Rightarrow> group \<Rightarrow> event list" where
  "enter_events groupID g =
     [CallGetGroup groupID listOptions,
      Log LevelInfo ''get group repos'' (group_attrs groupID g),
      CallListGroupProjects (group_ID g) listOptions]"

definition run_of :: "'w git \<Rightarrow> RepoCloner \<Rightarrow> nat \<Rightarrow> int \<Rightarrow> event list \<Rightarrow> bool" where
  "run_of be rc fuel groupID t =
     (\<exists>sa sb. Group be rc fuel groupID sa = Some sb \<and> trace sb = trace sa @ t)"

text \<open>
  A root project has had its turn when, unless it is excluded, its metadata was
  requested, and, if the metadata arrives, it was handed to \<^verbatim>\<open>git.PlainClone\<close> with an
  empty destination prefix.
\<close>

definition project_visited :: "RepoCloner \<Rightarrow> int \<Rightarrow> event list \<Rightarrow> bool" where
  "project_visited rc i t =
     (i \<notin> set (ignoreProjectIDs rc) \<longrightarrow>
        CallGetProject i \<in> set t
        \<and> (\<forall>p. GetProject (client rc) i = Inr p \<longrightarrow> cloned_at rc p [] t))"

text \<open>A path segment that \<^verbatim>\<open>path.Clean\<close> leaves alone.\<close>

definition simple_segment :: "string \<Rightarrow> bool" where
  "simple_segment x = (x \<noteq> [] \<and> CHR ''/'' \<notin> set x \<and> x \<noteq> ''.'' \<and> x \<noteq> ''..'')"

section \<open>A small remote and a small disk\<close>

text \<open>
  Group 10 (\<^verbatim>\<open>acme\<close>) owns three projects and lists three subgroups: 12, which the
  service does not find; 11 (\<^verbatim>\<open>acme/tools\<close>) with two projects; and 13, whose project
  listing fails although it has a subgroup 14. Upstream, \<^verbatim>\<open>ghost\<close> and \<^verbatim>\<open>stale\<close> are
  gone. On disk, \<^verbatim>\<open>alpha\<close> has a commit of its own while upstream has moved on, and
  \<^verbatim>\<open>stale\<close> is an old copy.
\<close>

definition alpha :: project where
  "alpha = \<lparr>project_ID = 1, project_Path = ''alpha'',
            project_SSHURLToRepo = ''git@h:acme/alpha.git''\<rparr>"

definition secret :: project where
  "secret = \<lparr>project_ID = 5, project_Path = ''secret'',
             project_SSHURLToRepo = ''git@h:acme/secret.git''\<rparr>"

definition ghost :: project where
  "ghost = \<lparr>project_ID = 3, project_Path = ''ghost'',
            project_SSHURLToRepo = ''git@h:acme/ghost.git''\<rparr>"

definition beta :: project where
  "beta = \<lparr>project_ID = 2, project_Path = ''beta'',
           project_SSHURLToRepo = ''git@h:acme/tools/beta.git''\<rparr>"

definition stale :: project where
  "stale = \<lparr>project_ID = 4, project_Path = ''stale'',
            project_SSHURLToRepo = ''git@h:acme/tools/stale.git''\<rparr>"

definition demo_api :: api where
  "demo_api = \<lparr>
     GetGroup = (\<lambda>gid opts.
       if gid = 10 then Inr \<lparr>group_ID = 10, group_FullPath = ''acme''\<rparr>
       else if gid = 11 then Inr \<lparr>group_ID = 11, group_FullPath = ''acme/tools''\<rparr>
       else if gid = 13 then Inr \<lparr>group_ID = 13, group_FullPath = ''acme/broken''\<rparr>
       else if gid = 14 then Inr \<lparr>group_ID = 14, group_FullPath = ''acme/broken/sub''\<rparr>
       else Inl (ApiError ''404 Group Not Found'')),
     ListGroupProjects = (\<lambda>gid opts.
       if gid = 10 then Inr [alpha, secret, ghost]
       else if gid = 11 then Inr [beta, stale]
       else if gid = 14 then Inr []
       else Inl (ApiError ''500 Internal Server Error'')),
     ListSubGroups = (\<lambda>gid opts.
       if gid = 10 then
         Inr [\<lparr>group_ID = 12, group_FullPath = ''acme/gone''\<rparr>,
              \<lparr>group_ID = 11, group_FullPath = ''acme/tools''\<rparr>,
              \<lparr>group_ID = 13, group_FullPath = ''acme/broken''\<rparr>]
       else if gid = 13 then Inr [\<lparr>group_ID = 14, group_FullPath = ''acme/broken/sub''\<rparr>]
       else if gid = 11 \<or> gid = 14 then Inr []
       else Inl (ApiError ''404 Group Not Found'')),
     GetProject = (\<lambda>pid.
       if pid = 5 then Inr secret
       else if pid = 1 then Inr alpha
       else Inl (ApiError ''404 Project Not Found''))\<rparr>"

definition demo_rc :: RepoCloner where
  "demo_rc = \<lparr>destDir = ''./repos'', client = demo_api, auth = ''git'',
               ignoreProjectIDs = [5], ignoreGroupIDs = [], progress = Discard\<rparr>"

definition demo_world :: vcs where
  "demo_world = \<lparr>
     disk = [''repos/acme/alpha'' \<mapsto>
               \<lparr>remotes = [(''origin'', ''git@h:acme/alpha.git'')], tracking = [''c0''],
                commits = [''c0'', ''local''], checkout = [''c0'', ''local''], edits = []\<rparr>,
             ''repos/acme/tools/stale'' \<mapsto>
               \<lparr>remotes = [(''origin'', ''git@h:acme/tools/stale.git'')], tracking = [''t0''],
                commits = [''t0''], checkout = [''t0''], edits = []\<rparr>],
     upstream = [''git@h:acme/alpha.git'' \<mapsto> [''c0'', ''c1''],
                 ''git@h:acme/secret.git'' \<mapsto> [''s1''],
                 ''git@h:acme/tools/beta.git'' \<mapsto> [''b1'']]\<rparr>"

definition demo_state :: "vcs state" where
  "demo_state = \<lparr>world = demo_world, trace = []\<rparr>"

definition demo_world_beta :: vcs where
  "demo_world_beta = demo_world\<lparr>disk := (disk demo_world)(''repos/acme/tools/beta'' \<mapsto>
      fresh_clone ''git@h:acme/tools/beta.git'' [''b1''])\<rparr>"


text \<open>
  Two more remotes. In the first every group lists itself as its only subgroup. The
  second serves one project per page whatever page size is asked for: \<^verbatim>\<open>alpha\<close> on the
  first page of a group, \<^verbatim>\<open>beta\<close> on the second.
\<close>

definition loop_api :: api where
  "loop_api = \<lparr>
     GetGroup = (\<lambda>gid opts. Inr \<lparr>group_ID = gid, group_FullPath = ''ring''\<rparr>),
     ListGroupProjects = (\<lambda>gid opts. Inr []),
     ListSubGroups = (\<lambda>gid opts. Inr [\<lparr>group_ID = gid, group_FullPath = ''ring''\<rparr>]),
     GetProject = (\<lambda>pid. Inl (ApiError ''404 Project Not Found''))\<rparr>"

definition loop_rc :: RepoCloner where
  "loop_rc = \<lparr>destDir = ''./repos'', client = loop_api, auth = ''git'',
               ignoreProjectIDs = [], ignoreGroupIDs = [], progress = Discard\<rparr>"

definition paged_api :: api where
  "paged_api = \<lparr>
     GetGroup = (\<lambda>gid opts. Inr \<lparr>group_ID = gid, group_FullPath = ''big''\<rparr>),
     ListGroupProjects = (\<lambda>gid opts.
       if Page opts \<le> 1 then Inr [alpha] else if Page opts = 2 then Inr [beta] else Inr []),
     ListSubGroups = (\<lambda>gid opts. Inr []),
     GetProject = (\<lambda>pid. Inl (ApiError ''404 Project Not Found''))\<rparr>"

definition paged_rc :: RepoCloner where
  "paged_rc = \<lparr>destDir = ''./repos'', client = paged_api, auth = ''git'',
                ignoreProjectIDs = [], ignoreGroupIDs = [], progress = Discard\<rparr>"

text \<open>Whether an entry of the trace is a clone from the given URL.\<close>

fun clones_from :: "string \<Rightarrow> event \<Rightarrow> bool" where
  "clones_from url (CallPlainClone pth isBare opts r) = (clone_URL opts = url)"
| "clones_from url (Log l m a) = False"
| "clones_from url (CallGetGroup i opts) = False"
| "clones_from url (CallListGroupProjects i opts) = False"
| "clones_from url (CallListSubGroups i opts) = False"
| "clones_from url (CallGetProject i) = False"
| "clones_from url (CallPlainOpen pth) = False"
| "clones_from url (CallWorktree repo) = False"
| "clones_from url (CallPull work opts r) = False"

section \<open>The branches of gitClone\<close>

lemma gitClone_clone_failed:
  assumes "after_clone be rc project dest s = (err, s2)"
    and "failed_other_than ErrRepositoryAlreadyExists err"
  shows "gitClone be rc project dest s =
         emit (Log LevelError ''clone repo error'' (repo_attrs project dest @ error_attr err)) s2"
  using assms
  by (simp add: gitClone_def after_clone_def repo_attrs_def repo_path_def clone_opts_def Let_def)

lemma gitClone_open_failed:
  assumes "after_clone be rc project dest s = (err, s2)"
    and "\<not> failed_other_than ErrRepositoryAlreadyExists err"
    and "PlainOpen be (repo_path rc project dest) (world s2) = Inl e"
  shows "gitClone be rc project dest s =
         emit (Log LevelError ''open repo error'' (repo_attrs project dest @ error_attr (Some e)))
           (emit (CallPlainOpen (repo_path rc project dest)) s2)"
  using assms
  by (simp add: gitClone_def after_clone_def repo_attrs_def repo_path_def clone_opts_def Let_def
      call_PlainOpen_def)

lemma gitClone_worktree_failed:
  assumes "after_clone be rc project dest s = (err, s2)"
    and "\<not> failed_other_than ErrRepositoryAlreadyExists err"
    and "PlainOpen be (repo_path rc project dest) (world s2) = Inr repo"
    and "Worktree be repo = Inl e"
  shows "gitClone be rc project dest s =
         emit (Log LevelError ''worktree repo error'' (repo_attrs project dest @ error_attr (Some e)))
           (emit (CallWorktree repo) (emit (CallPlainOpen (repo_path rc project dest)) s2))"
  using assms
  by (simp add: gitClone_def after_clone_def repo_attrs_def repo_path_def clone_opts_def Let_def
      call_PlainOpen_def call_Worktree_def)

lemma gitClone_update:
  assumes "after_clone be rc project dest s = (err, s2)"
    and "\<not> failed_other_than ErrRepositoryAlreadyExists err"
    and "PlainOpen be (repo_path rc project dest) (world s2) = Inr repo"
    and "Worktree be repo = Inr work"
    and "call_Pull be work (pull_opts rc)
           (emit (CallWorktree repo) (emit (CallPlainOpen (repo_path rc project dest)) s2)) = (perr, s5)"
  shows "gitClone be rc project dest s =
         (if failed_other_than NoErrAlreadyUpToDate perr
          then emit (Log LevelError ''pull repo error'' (repo_attrs project dest @ error_attr perr)) s5
          else s5)"
  using assms
  by (simp add: gitClone_def after_clone_def repo_attrs_def repo_path_def clone_opts_def Let_def
      call_PlainOpen_def call_Worktree_def pull_opts_def emit_def)

lemma after_clone_eq:
  assumes "PlainClone be (repo_path rc project dest) False (clone_opts rc project) (world s) = (err, w)"
  shows "after_clone be rc project dest s =
         (err, \<lparr>world = w, trace = trace s @ clone_events rc project dest err\<rparr>)"
  using assms by (simp add: after_clone_def call_PlainClone_def emit_def clone_events_def)

text \<open>
  Claim C3. When \<^verbatim>\<open>git.PlainClone\<close> returns \<^verbatim>\<open>ErrRepositoryAlreadyExists\<close>, the sync
  goes on: the next entry of the trace is the \<^verbatim>\<open>git.PlainOpen\<close> of the same path, and
  when the open and the worktree succeed the pull is called. When it returns any other
  error, the sync logs \<^verbatim>\<open>clone repo error\<close> and returns: the trace ends there, with no
  open and no pull, and the world is as the clone left it.
\<close>

theorem clone_AlreadyExists_proceeds_other_failure_abandons:
  assumes "PlainClone be (repo_path rc project dest) False (clone_opts rc project) (world s) = (err, w)"
  shows "(err = Some ErrRepositoryAlreadyExists \<longrightarrow>
            (\<exists>t. trace (gitClone be rc project dest s) =
                  trace s @ clone_events rc project dest err
                    @ CallPlainOpen (repo_path rc project dest) # t
               \<and> (\<forall>repo work. PlainOpen be (repo_path rc project dest) w = Inr repo
                     \<longrightarrow> Worktree be repo = Inr work
                     \<longrightarrow> (\<exists>perr. CallPull work (pull_opts rc) perr \<in> set t))))
       \<and> (failed_other_than ErrRepositoryAlreadyExists err \<longrightarrow>
            gitClone be rc project dest s =
              \<lparr>world = w,
               trace = trace s @ clone_events rc project dest err
                 @ [Log LevelError ''clone repo error''
                      (repo_attrs project dest @ error_attr err)]\<rparr>)"
proof (intro conjI impI)
  let ?p = "repo_path rc project dest"
  let ?s2 = "\<lparr>world = w, trace = trace s @ clone_events rc project dest err\<rparr>"
  have ac: "after_clone be rc project dest s = (err, ?s2)"
    by (rule after_clone_eq [OF assms])
  {
    assume e: "err = Some ErrRepositoryAlreadyExists"
    then have nf: "\<not> failed_other_than ErrRepositoryAlreadyExists err"
      by (simp add: failed_other_than_def)
    show "\<exists>t. trace (gitClone be rc project dest s) =
                  trace s @ clone_events rc project dest err @ CallPlainOpen ?p # t
               \<and> (\<forall>repo work. PlainOpen be ?p w = Inr repo
                     \<longrightarrow> Worktree be repo = Inr work
                     \<longrightarrow> (\<exists>perr. CallPull work (pull_opts rc) perr \<in> set t))"
    proof (cases "PlainOpen be ?p w")
      case (Inl e1)
      then show ?thesis
        using gitClone_open_failed [OF ac nf, of e1] by (simp add: emit_def)
    next
      case (Inr repo)
      note op = this
      show ?thesis
      proof (cases "Worktree be repo")
        case (Inl e2)
        then show ?thesis
          using gitClone_worktree_failed [OF ac nf, of repo e2] op by (simp add: emit_def)
      next
        case (Inr work)
        obtain perr w5 where pl: "Pull be work (pull_opts rc) w = (perr, w5)"
          by (cases "Pull be work (pull_opts rc) w") auto
        have cp: "call_Pull be work (pull_opts rc)
                    (emit (CallWorktree repo) (emit (CallPlainOpen ?p) ?s2))
                  = (perr, \<lparr>world = w5, trace = trace s @ clone_events rc project dest err
                       @ [CallPlainOpen ?p, CallWorktree repo, CallPull work (pull_opts rc) perr]\<rparr>)"
          using pl by (simp add: call_Pull_def emit_def)
        show ?thesis
          using gitClone_update [OF ac nf _ Inr cp] op Inr
          by (auto simp: emit_def)
      qed
    qed
  }
  {
    assume "failed_other_than ErrRepositoryAlreadyExists err"
    from gitClone_clone_failed [OF ac this]
    show "gitClone be rc project dest s =
              \<lparr>world = w,
               trace = trace s @ clone_events rc project dest err
                 @ [Log LevelError ''clone repo error''
                      (repo_attrs project dest @ error_attr err)]\<rparr>"
      by (simp add: emit_def)
  }
qed

lemma demo_paths:
  "repo_path demo_rc alpha ''acme'' = ''repos/acme/alpha''"
  "repo_path demo_rc ghost ''acme'' = ''repos/acme/ghost''"
  "repo_path demo_rc stale ''acme/tools'' = ''repos/acme/tools/stale''"
  "repo_path demo_rc beta ''acme/tools'' = ''repos/acme/tools/beta''"
  by code_simp+

lemma demo_urls:
  "clone_URL (clone_opts demo_rc alpha) = ''git@h:acme/alpha.git''"
  "clone_URL (clone_opts demo_rc ghost) = ''git@h:acme/ghost.git''"
  "clone_URL (clone_opts demo_rc stale) = ''git@h:acme/tools/stale.git''"
  "clone_URL (clone_opts demo_rc beta) = ''git@h:acme/tools/beta.git''"
  by (simp_all add: clone_opts_def alpha_def ghost_def stale_def beta_def)

theorem clone_AlreadyExists_proceeds_other_failure_abandons_witness:
  "PlainClone vcs_git (repo_path demo_rc alpha ''acme'') False (clone_opts demo_rc alpha) demo_world
     = (Some ErrRepositoryAlreadyExists, demo_world)
   \<and> (\<exists>perr. CallPull ''repos/acme/alpha'' (pull_opts demo_rc) perr
         \<in> set (trace (gitClone vcs_git demo_rc alpha ''acme'' demo_state)))
   \<and> PlainClone vcs_git (repo_path demo_rc ghost ''acme'') False (clone_opts demo_rc ghost) demo_world
     = (Some (GitError ''repository not found''), demo_world)
   \<and> trace (gitClone vcs_git demo_rc ghost ''acme'' demo_state)
     = clone_events demo_rc ghost ''acme'' (Some (GitError ''repository not found''))
       @ [Log LevelError ''clone repo error''
            [IntAttr ''project_id'' 3, StringAttr ''path'' ''acme/ghost'',
             StringAttr ''error'' ''repository not found'']]"
proof -
  have a: "PlainClone vcs_git (repo_path demo_rc alpha ''acme'') False (clone_opts demo_rc alpha)
             (world demo_state) = (Some ErrRepositoryAlreadyExists, demo_world)"
    by (simp add: demo_paths vcs_git_def vcs_PlainClone_def demo_world_def demo_state_def)
  have g: "PlainClone vcs_git (repo_path demo_rc ghost ''acme'') False (clone_opts demo_rc ghost)
             (world demo_state) = (Some (GitError ''repository not found''), demo_world)"
    by (simp add: demo_paths demo_urls vcs_git_def vcs_PlainClone_def demo_world_def
        demo_state_def)
  have o: "PlainOpen vcs_git (repo_path demo_rc alpha ''acme'') demo_world = Inr ''repos/acme/alpha''"
    by (simp add: demo_paths vcs_git_def vcs_PlainOpen_def demo_world_def)
  have w: "Worktree vcs_git ''repos/acme/alpha'' = Inr ''repos/acme/alpha''"
    by (simp add: vcs_git_def vcs_Worktree_def)
  from clone_AlreadyExists_proceeds_other_failure_abandons [OF a] o w
  have p: "\<exists>perr. CallPull ''repos/acme/alpha'' (pull_opts demo_rc) perr
         \<in> set (trace (gitClone vcs_git demo_rc alpha ''acme'' demo_state))"
    by fastforce
  have ra: "repo_attrs ghost ''acme'' = [IntAttr ''project_id'' 3, StringAttr ''path'' ''acme/ghost'']"
    by code_simp
  from clone_AlreadyExists_proceeds_other_failure_abandons [OF g]
  have "trace (gitClone vcs_git demo_rc ghost ''acme'' demo_state)
     = clone_events demo_rc ghost ''acme'' (Some (GitError ''repository not found''))
       @ [Log LevelError ''clone repo error''
            [IntAttr ''project_id'' 3, StringAttr ''path'' ''acme/ghost'',
             StringAttr ''error'' ''repository not found'']]"
    by (simp add: failed_other_than_def demo_state_def ra)
  with a g p show ?thesis by (simp add: demo_state_def)
qed

lemma update_reached:
  assumes "PlainClone be (repo_path rc project dest) False (clone_opts rc project) (world s) = (err, w)"
    and "\<not> failed_other_than ErrRepositoryAlreadyExists err"
    and "PlainOpen be (repo_path rc project dest) w = Inr repo"
    and "Worktree be repo = Inr work"
    and "Pull be work (pull_opts rc) w = (perr, w')"
  shows "gitClone be rc project dest s =
         \<lparr>world = w',
          trace = trace s @ clone_events rc project dest err
            @ [CallPlainOpen (repo_path rc project dest), CallWorktree repo,
               CallPull work (pull_opts rc) perr]
            @ (if failed_other_than NoErrAlreadyUpToDate perr
               then [Log LevelError ''pull repo error'' (repo_attrs project dest @ error_attr perr)]
               else [])\<rparr>"
proof -
  let ?p = "repo_path rc project dest"
  let ?s2 = "\<lparr>world = w, trace = trace s @ clone_events rc project dest err\<rparr>"
  have ac: "after_clone be rc project dest s = (err, ?s2)"
    by (rule after_clone_eq [OF assms(1)])
  have op: "PlainOpen be ?p (world ?s2) = Inr repo"
    using assms(3) by simp
  have cp: "call_Pull be work (pull_opts rc)
              (emit (CallWorktree repo) (emit (CallPlainOpen ?p) ?s2))
            = (perr, \<lparr>world = w', trace = trace s @ clone_events rc project dest err
                 @ [CallPlainOpen ?p, CallWorktree repo, CallPull work (pull_opts rc) perr]\<rparr>)"
    using assms(5) by (simp add: call_Pull_def emit_def)
  show ?thesis
    using gitClone_update [OF ac assms(2) op assms(4) cp] by (simp add: emit_def)
qed

text \<open>
  Claim C4. When the update step is reached and \<^verbatim>\<open>work.Pull\<close> returns
  \<^verbatim>\<open>NoErrAlreadyUpToDate\<close>, the sync returns at once, exactly as it does when the pull
  returns no error: the pull is the last entry of the trace and nothing is logged. When
  the pull returns any other error, the sync logs \<^verbatim>\<open>pull repo error\<close> with the error
  and returns.
\<close>

theorem pull_AlreadyUpToDate_is_success_other_failure_logged:
  assumes "PlainClone be (repo_path rc project dest) False (clone_opts rc project) (world s) = (err, w)"
    and "\<not> failed_other_than ErrRepositoryAlreadyExists err"
    and "PlainOpen be (repo_path rc project dest) w = Inr repo"
    and "Worktree be repo = Inr work"
    and "Pull be work (pull_opts rc) w = (perr, w')"
  shows "(perr = Some NoErrAlreadyUpToDate \<or> perr = None \<longrightarrow>
            gitClone be rc project dest s =
              \<lparr>world = w',
               trace = trace s @ clone_events rc project dest err
                 @ [CallPlainOpen (repo_path rc project dest), CallWorktree repo,
                    CallPull work (pull_opts rc) perr]\<rparr>)
       \<and> (failed_other_than NoErrAlreadyUpToDate perr \<longrightarrow>
            gitClone be rc project dest s =
              \<lparr>world = w',
               trace = trace s @ clone_events rc project dest err
                 @ [CallPlainOpen (repo_path rc project dest), CallWorktree repo,
                    CallPull work (pull_opts rc) perr,
                    Log LevelError ''pull repo error''
                      (repo_attrs project dest @ error_attr perr)]\<rparr>)"
  using update_reached [OF assms] by (auto simp: failed_other_than_def)

lemma gitClone_trace:
  "\<exists>err t. trace (gitClone be rc project dest s)
             = trace s @ clone_events rc project dest err @ t
     \<and> list_all (sync_event rc project dest) t"
proof -
  let ?p = "repo_path rc project dest"
  obtain err w where c: "PlainClone be ?p False (clone_opts rc project) (world s) = (err, w)"
    by (cases "PlainClone be ?p False (clone_opts rc project) (world s)") auto
  let ?s2 = "\<lparr>world = w, trace = trace s @ clone_events rc project dest err\<rparr>"
  have ac: "after_clone be rc project dest s = (err, ?s2)"
    by (rule after_clone_eq [OF c])
  have len [simp]: "length (repo_attrs project dest) = 2"
    by (simp add: repo_attrs_def)
  have "\<exists>t. trace (gitClone be rc project dest s)
             = trace s @ clone_events rc project dest err @ t
     \<and> list_all (sync_event rc project dest) t"
  proof (cases "failed_other_than ErrRepositoryAlreadyExists err")
    case True
    from gitClone_clone_failed [OF ac True] show ?thesis
      by (simp add: emit_def)
  next
    case nf: False
    show ?thesis
    proof (cases "PlainOpen be ?p w")
      case (Inl e1)
      then show ?thesis
        using gitClone_open_failed [OF ac nf, of e1] by (simp add: emit_def)
    next
      case (Inr repo)
      note op = this
      show ?thesis
      proof (cases "Worktree be repo")
        case (Inl e2)
        then show ?thesis
          using gitClone_worktree_failed [OF ac nf, of repo e2] op
          by (simp add: emit_def)
      next
        case (Inr work)
        obtain perr w5 where pl: "Pull be work (pull_opts rc) w = (perr, w5)"
          by (cases "Pull be work (pull_opts rc) w") auto
        show ?thesis
          using update_reached [OF c nf op Inr pl]
          by simp
      qed
    qed
  qed
  then show ?thesis by blast
qed

lemma demo_stale_calls:
  "PlainClone vcs_git (repo_path demo_rc stale ''acme/tools'') False (clone_opts demo_rc stale)
     (world demo_state) = (Some ErrRepositoryAlreadyExists, demo_world)"
  "PlainOpen vcs_git (repo_path demo_rc stale ''acme/tools'') demo_world
     = Inr ''repos/acme/tools/stale''"
  "Worktree vcs_git ''repos/acme/tools/stale'' = Inr ''repos/acme/tools/stale''"
  "Pull vcs_git ''repos/acme/tools/stale'' (pull_opts demo_rc) demo_world
     = (Some (GitError ''repository not found''), demo_world)"
  by (simp_all add: demo_paths vcs_git_def vcs_PlainClone_def vcs_PlainOpen_def vcs_Worktree_def
      vcs_Pull_def demo_world_def demo_state_def pull_opts_def)

lemma demo_beta_calls:
  "PlainClone vcs_git (repo_path demo_rc beta ''acme/tools'') False (clone_opts demo_rc beta)
     (world demo_state) = (None, demo_world_beta)"
  "PlainOpen vcs_git (repo_path demo_rc beta ''acme/tools'') demo_world_beta
     = Inr ''repos/acme/tools/beta''"
  "Worktree vcs_git ''repos/acme/tools/beta'' = Inr ''repos/acme/tools/beta''"
  "Pull vcs_git ''repos/acme/tools/beta'' (pull_opts demo_rc) demo_world_beta
     = (Some NoErrAlreadyUpToDate, demo_world_beta)"
  by (simp_all add: demo_paths demo_urls vcs_git_def vcs_PlainClone_def vcs_PlainOpen_def
      vcs_Worktree_def vcs_Pull_def demo_world_def demo_world_beta_def demo_state_def pull_opts_def
      fresh_clone_def)

theorem pull_AlreadyUpToDate_is_success_other_failure_logged_witness:
  "Pull vcs_git ''repos/acme/tools/beta'' (pull_opts demo_rc) demo_world_beta
     = (Some NoErrAlreadyUpToDate, demo_world_beta)
   \<and> last (trace (gitClone vcs_git demo_rc beta ''acme/tools'' demo_state))
     = CallPull ''repos/acme/tools/beta'' (pull_opts demo_rc) (Some NoErrAlreadyUpToDate)
   \<and> Pull vcs_git ''repos/acme/tools/stale'' (pull_opts demo_rc) demo_world
     = (Some (GitError ''repository not found''), demo_world)
   \<and> last (trace (gitClone vcs_git demo_rc stale ''acme/tools'' demo_state))
     = Log LevelError ''pull repo error''
         (repo_attrs stale ''acme/tools'' @ [StringAttr ''error'' ''repository not found''])"
proof -
  have nf: "\<not> failed_other_than ErrRepositoryAlreadyExists None"
    "\<not> failed_other_than ErrRepositoryAlreadyExists (Some ErrRepositoryAlreadyExists)"
    by (simp_all add: failed_other_than_def)
  have b: "last (trace (gitClone vcs_git demo_rc beta ''acme/tools'' demo_state))
     = CallPull ''repos/acme/tools/beta'' (pull_opts demo_rc) (Some NoErrAlreadyUpToDate)"
    using pull_AlreadyUpToDate_is_success_other_failure_logged
      [OF demo_beta_calls(1) nf(1) demo_beta_calls(2,3,4)]
    by simp
  have s: "last (trace (gitClone vcs_git demo_rc stale ''acme/tools'' demo_state))
     = Log LevelError ''pull repo error''
         (repo_attrs stale ''acme/tools'' @ [StringAttr ''error'' ''repository not found''])"
    using pull_AlreadyUpToDate_is_success_other_failure_logged
      [OF demo_stale_calls(1) nf(2) demo_stale_calls(2,3,4)]
    by (simp add: failed_other_than_def)
  from b s demo_beta_calls(4) demo_stale_calls(4) show ?thesis by simp
qed

section \<open>The Sync Primitive on the backend\<close>



lemma vcs_pull_diverged:
  assumes "disk w p = Some r" and "map_of (remotes r) (pull_RemoteName opts) = Some url"
    and "upstream w url = Some h" and "\<not> prefix (commits r) h" and "\<not> prefix h (commits r)"
  shows "Pull vcs_git p opts w =
         (Some (GitError ''non-fast-forward update''),
          w\<lparr>disk := (disk w)(p \<mapsto> r\<lparr>tracking := h\<rparr>)\<rparr>)"
  using assms by (auto simp: vcs_git_def vcs_Pull_def)

lemma vcs_pull_keeps_edits:
  assumes "disk w p = Some r" and "Pull vcs_git work opts w = (perr, w')"
  shows "\<exists>r'. disk w' p = Some r' \<and> edits r' = edits r"
  using assms
  by (auto simp: vcs_git_def vcs_Pull_def split: option.splits if_splits)


lemma sync_events_eq:
  assumes "gitClone be rc project dest s = \<lparr>world = w, trace = trace s @ t\<rparr>"
  shows "sync_events be rc project dest s = t"
  using assms by (simp add: sync_events_def)













section \<open>Failures while listing\<close>

text \<open>
  Claim C5. When a group is visited (it is not excluded and its metadata is fetched) and
  the listing of its direct projects fails, \<^verbatim>\<open>Group\<close> returns there: the trace gains
  the two requests and the two log lines, the subgroup listing is never requested and no
  subgroup is visited.
\<close>

theorem project_listing_failure_skips_subgroups:
  assumes "groupID \<notin> set (ignoreGroupIDs rc)"
    and "GetGroup (client rc) groupID listOptions = Inr g"
    and "ListGroupProjects (client rc) (group_ID g) listOptions = Inl e"
  shows "Group be rc (Suc fuel) groupID s =
         Some \<lparr>world = world s,
               trace = trace s @
                 [CallGetGroup groupID listOptions,
                  Log LevelInfo ''get group repos''
                    [IntAttr ''group_id'' groupID, StringAttr ''group'' (group_FullPath g)],
                  CallListGroupProjects (group_ID g) listOptions,
                  Log LevelError ''list projects error''
                    [IntAttr ''group_id'' groupID, StringAttr ''group'' (group_FullPath g),
                     StringAttr ''error'' (api_error_string e)]]\<rparr>"
  using assms by (simp add: emit_def Let_def)

theorem project_listing_failure_skips_subgroups_witness:
  "ListGroupProjects (client demo_rc) 13 listOptions = Inl (ApiError ''500 Internal Server Error'')
   \<and> ListSubGroups (client demo_rc) 13 listOptions
       = Inr [\<lparr>group_ID = 14, group_FullPath = ''acme/broken/sub''\<rparr>]
   \<and> map_option trace (Group vcs_git demo_rc 5 13 demo_state) =
       Some [CallGetGroup 13 listOptions,
             Log LevelInfo ''get group repos''
               [IntAttr ''group_id'' 13, StringAttr ''group'' ''acme/broken''],
             CallListGroupProjects 13 listOptions,
             Log LevelError ''list projects error''
               [IntAttr ''group_id'' 13, StringAttr ''group'' ''acme/broken'',
                StringAttr ''error'' ''500 Internal Server Error'']]"
proof -
  have i: "13 \<notin> set (ignoreGroupIDs demo_rc)" by (simp add: demo_rc_def)
  have g: "GetGroup (client demo_rc) 13 listOptions
             = Inr \<lparr>group_ID = 13, group_FullPath = ''acme/broken''\<rparr>"
    by (simp add: demo_rc_def demo_api_def)
  have l: "ListGroupProjects (client demo_rc) (group_ID \<lparr>group_ID = 13, group_FullPath = ''acme/broken''\<rparr>)
             listOptions = Inl (ApiError ''500 Internal Server Error'')"
    by (simp add: demo_rc_def demo_api_def)
  have sg: "ListSubGroups (client demo_rc) 13 listOptions
       = Inr [\<lparr>group_ID = 14, group_FullPath = ''acme/broken/sub''\<rparr>]"
    by (simp add: demo_rc_def demo_api_def)
  have five: "(5::nat) = Suc 4" by simp
  from project_listing_failure_skips_subgroups [OF i g l, of vcs_git 4 demo_state] l sg
  show ?thesis unfolding five by (simp add: demo_state_def)
qed

section \<open>Exclusion\<close>

text \<open>
  Claim C1, evaluated where it fails. Project 5 is in \<^verbatim>\<open>ignoreProjectIDs\<close> and is
  listed among the direct projects of group 10, which is visited. \<^verbatim>\<open>Group\<close> hands every
  listed project to \<^verbatim>\<open>gitClone\<close> without consulting the list, so the repository of
  project 5 is cloned and its destination path, absent before, holds a working copy
  after the run.
\<close>

theorem excluded_project_synced_through_its_group:
  "5 \<in> set (ignoreProjectIDs demo_rc)
   \<and> project_ID secret = 5
   \<and> ListGroupProjects (client demo_rc) 10 listOptions = Inr [alpha, secret, ghost]
   \<and> disk (world demo_state) ''repos/acme/secret'' = None
   \<and> map_option (\<lambda>s'. (CallPlainClone ''repos/acme/secret'' False (clone_opts demo_rc secret) None
                            \<in> set (trace s'),
                         disk (world s') ''repos/acme/secret''))
        (Group vcs_git demo_rc 3 10 demo_state)
     = Some (True, Some (fresh_clone ''git@h:acme/secret.git'' [''s1'']))"
  by code_simp

section \<open>What a traversal adds to the trace\<close>

lemma sync_event_traversal:
  assumes "listed_project rc g p" and "sync_event rc p (group_FullPath g) e"
  shows "traversal_event rc root e"
  using assms by (cases e) auto

lemma clone_events_traversal:
  assumes "listed_project rc g p"
  shows "list_all (traversal_event rc root) (clone_events rc p (group_FullPath g) err)"
  using assms by (auto simp: clone_events_def)

lemma fold_gitClone_trace:
  assumes "\<forall>p \<in> set ps. listed_project rc g p"
  shows "\<exists>t. trace (fold (\<lambda>p. gitClone be rc p (group_FullPath g)) ps s) = trace s @ t
     \<and> list_all (traversal_event rc root) t
     \<and> (\<forall>e \<in> set t. \<exists>p \<in> set ps. sync_event rc p (group_FullPath g) e)
     \<and> (\<forall>p \<in> set ps. cloned_at rc p (group_FullPath g) t)"
  using assms
proof (induction ps arbitrary: s)
  case Nil
  then show ?case by simp
next
  case (Cons p ps)
  let ?d = "group_FullPath g"
  from gitClone_trace [of be rc p ?d s] obtain err t1 where
    t1: "trace (gitClone be rc p ?d s) = trace s @ clone_events rc p ?d err @ t1"
    and a1: "list_all (sync_event rc p ?d) t1" by blast
  from Cons.prems have lp: "listed_project rc g p" and rest: "\<forall>q \<in> set ps. listed_project rc g q"
    by simp_all
  from Cons.IH [OF rest, of "gitClone be rc p ?d s"] obtain t2 where
    t2: "trace (fold (\<lambda>p. gitClone be rc p ?d) ps (gitClone be rc p ?d s))
           = trace (gitClone be rc p ?d s) @ t2"
    and a2: "list_all (traversal_event rc root) t2"
    and s2: "\<forall>e \<in> set t2. \<exists>q \<in> set ps. sync_event rc q ?d e"
    and c2: "\<forall>q \<in> set ps. cloned_at rc q ?d t2" by blast
  let ?t = "clone_events rc p ?d err @ t1 @ t2"
  have len [simp]: "length (repo_attrs p ?d) = 2"
    by (simp add: repo_attrs_def)
  have ce: "list_all (sync_event rc p ?d) (clone_events rc p ?d err)"
    by (simp add: clone_events_def)
  have tr1: "list_all (traversal_event rc root) t1"
    using a1 lp unfolding list_all_iff by (blast intro: sync_event_traversal)
  have "trace (fold (\<lambda>p. gitClone be rc p ?d) (p # ps) s) = trace s @ ?t"
    using t1 t2 by simp
  moreover have "list_all (traversal_event rc root) ?t"
    using clone_events_traversal [OF lp, of root err] tr1 a2 by simp
  moreover have "\<forall>e \<in> set ?t. \<exists>q \<in> set (p # ps). sync_event rc q ?d e"
    using ce a1 s2 unfolding list_all_iff by auto
  moreover have "\<forall>q \<in> set (p # ps). cloned_at rc q ?d ?t"
  proof
    fix q assume "q \<in> set (p # ps)"
    then consider "q = p" | "q \<in> set ps" by auto
    then show "cloned_at rc q ?d ?t"
    proof cases
      case 1
      then show ?thesis by (auto simp: cloned_at_def clone_events_def)
    next
      case 2
      with c2 show ?thesis by (auto simp: cloned_at_def)
    qed
  qed
  ultimately show ?case by blast
qed


lemma Group_ignored:
  assumes "groupID \<in> set (ignoreGroupIDs rc)"
  shows "Group be rc (Suc fuel) groupID s =
         Some \<lparr>world = world s,
               trace = trace s @ [Log LevelWarn ''ignore group'' [IntAttr ''group_id'' groupID]]\<rparr>"
  using assms by (simp add: emit_def)

lemma Group_get_failed:
  assumes "groupID \<notin> set (ignoreGroupIDs rc)"
    and "GetGroup (client rc) groupID listOptions = Inl e"
  shows "Group be rc (Suc fuel) groupID s =
         Some \<lparr>world = world s,
               trace = trace s @
                 [CallGetGroup groupID listOptions,
                  Log LevelError ''get group error''
                    [IntAttr ''group_id'' groupID, StringAttr ''error'' (api_error_string e)]]\<rparr>"
  using assms by (simp add: emit_def)

lemma Group_projects_failed:
  assumes "groupID \<notin> set (ignoreGroupIDs rc)"
    and "GetGroup (client rc) groupID listOptions = Inr g"
    and "ListGroupProjects (client rc) (group_ID g) listOptions = Inl e"
  shows "Group be rc (Suc fuel) groupID s =
         Some \<lparr>world = world s,
               trace = trace s @ enter_events groupID g @
                 [Log LevelError ''list projects error''
                    (group_attrs groupID g @ [StringAttr ''error'' (api_error_string e)])]\<rparr>"
  using assms by (simp add: emit_def Let_def enter_events_def group_attrs_def)

lemma Group_subgroups_failed:
  assumes "groupID \<notin> set (ignoreGroupIDs rc)"
    and "GetGroup (client rc) groupID listOptions = Inr g"
    and "ListGroupProjects (client rc) (group_ID g) listOptions = Inr ps"
    and "ListSubGroups (client rc) (group_ID g) listOptions = Inl e"
  shows "Group be rc (Suc fuel) groupID s =
         Some (emit (Log LevelError ''list subgroups error''
                      (group_attrs groupID g @ [StringAttr ''error'' (api_error_string e)]))
                (emit (CallListSubGroups (group_ID g) listOptions)
                  (fold (\<lambda>p. gitClone be rc p (group_FullPath g)) ps
                     (s\<lparr>trace := trace s @ enter_events groupID g\<rparr>))))"
  using assms by (simp add: emit_def Let_def enter_events_def group_attrs_def)

lemma Group_descends:
  assumes "groupID \<notin> set (ignoreGroupIDs rc)"
    and "GetGroup (client rc) groupID listOptions = Inr g"
    and "ListGroupProjects (client rc) (group_ID g) listOptions = Inr ps"
    and "ListSubGroups (client rc) (group_ID g) listOptions = Inr gs"
  shows "Group be rc (Suc fuel) groupID s =
         forEach (\<lambda>sg s'. Group be rc fuel (group_ID sg) s') gs
           (emit (CallListSubGroups (group_ID g) listOptions)
              (fold (\<lambda>p. gitClone be rc p (group_FullPath g)) ps
                 (s\<lparr>trace := trace s @ enter_events groupID g\<rparr>)))"
  using assms by (simp add: emit_def Let_def enter_events_def group_attrs_def)

lemma forEach_runs:
  assumes "\<forall>x \<in> set xs. \<forall>sa sb. body x sa = Some sb \<longrightarrow> (\<exists>t. trace sb = trace sa @ t)"
    and "forEach body xs s = Some s'"
  shows "\<exists>ts. trace s' = trace s @ concat ts
           \<and> list_all2 (\<lambda>x t. \<exists>sa sb. body x sa = Some sb \<and> trace sb = trace sa @ t) xs ts"
  using assms
proof (induction xs arbitrary: s)
  case Nil
  then show ?case by simp
next
  case (Cons x xs)
  from Cons.prems(2) obtain s1 where b: "body x s = Some s1" and r: "forEach body xs s1 = Some s'"
    by (auto split: option.splits)
  from Cons.prems(1) b obtain t1 where t1: "trace s1 = trace s @ t1"
    by (meson list.set_intros(1))
  have ext: "\<forall>y \<in> set xs. \<forall>sa sb. body y sa = Some sb \<longrightarrow> (\<exists>t. trace sb = trace sa @ t)"
    using Cons.prems(1) by simp
  from Cons.IH [OF ext r] obtain ts where
    ts: "trace s' = trace s1 @ concat ts"
    and l: "list_all2 (\<lambda>x t. \<exists>sa sb. body x sa = Some sb \<and> trace sb = trace sa @ t) xs ts"
    by blast
  have "trace s' = trace s @ concat (t1 # ts)" using t1 ts by simp
  moreover have "list_all2 (\<lambda>x t. \<exists>sa sb. body x sa = Some sb \<and> trace sb = trace sa @ t)
                   (x # xs) (t1 # ts)"
    using l b t1 by auto
  ultimately show ?case by blast
qed

lemma visited_mono:
  assumes "visited rc i t" and "set t \<subseteq> set t'"
  shows "visited rc i t'"
  using assms unfolding visited_def cloned_at_def by blast

lemma traversal_event_reroot:
  assumes "traversal_event rc r e" and "listed_subgroup rc r"
  shows "traversal_event rc root e"
  using assms by (cases e) auto


lemma reaches_stops:
  assumes "reaches rc root i"
    and "root \<in> set (ignoreGroupIDs rc)
         \<or> (\<exists>e. GetGroup (client rc) root listOptions = Inl e)
         \<or> (\<exists>g e. GetGroup (client rc) root listOptions = Inr g
               \<and> ListGroupProjects (client rc) (group_ID g) listOptions = Inl e)
         \<or> (\<exists>g e. GetGroup (client rc) root listOptions = Inr g
               \<and> ListSubGroups (client rc) (group_ID g) listOptions = Inl e)"
  shows "i = root"
  using assms by cases auto

lemma visited_root:
  assumes "CallGetGroup root listOptions \<in> set t"
    and "\<forall>g ps. GetGroup (client rc) root listOptions = Inr g
           \<longrightarrow> ListGroupProjects (client rc) (group_ID g) listOptions = Inr ps
           \<longrightarrow> (\<forall>p \<in> set ps. cloned_at rc p (group_FullPath g) t)"
  shows "visited rc root t"
  using assms by (simp add: visited_def)

lemma cloned_at_mono:
  assumes "cloned_at rc p d t" and "set t \<subseteq> set t'"
  shows "cloned_at rc p d t'"
  using assms unfolding cloned_at_def by blast

lemma enter_events_traversal: "list_all (traversal_event rc root) (enter_events root g)"
  by (simp add: enter_events_def)

lemma Group_trace:
  "Group be rc fuel root s = Some s' \<Longrightarrow>
   \<exists>t. trace s' = trace s @ t \<and> list_all (traversal_event rc root) t
     \<and> (\<forall>i. reaches rc root i \<longrightarrow> visited rc i t)"
proof (induction fuel arbitrary: root s s')
  case 0
  then show ?case by simp
next
  case (Suc fuel)
  let ?api = "client rc"
  show ?case
  proof (cases "root \<in> set (ignoreGroupIDs rc)")
    case True
    let ?t = "[Log LevelWarn ''ignore group'' [IntAttr ''group_id'' root]]"
    from Group_ignored [OF True, of be fuel s] Suc.prems
    have tr: "trace s' = trace s @ ?t" by auto
    have "visited rc i ?t" if "reaches rc root i" for i
      using reaches_stops [OF that] True by (auto simp: visited_def)
    with tr show ?thesis by auto
  next
    case ni: False
    show ?thesis
    proof (cases "GetGroup ?api root listOptions")
      case (Inl e)
      let ?t = "[CallGetGroup root listOptions,
                 Log LevelError ''get group error''
                   [IntAttr ''group_id'' root, StringAttr ''error'' (api_error_string e)]]"
      from Group_get_failed [OF ni Inl, of be fuel s] Suc.prems
      have tr: "trace s' = trace s @ ?t" by auto
      have "visited rc i ?t" if "reaches rc root i" for i
      proof -
        from reaches_stops [OF that] Inl have "i = root" by auto
        then show ?thesis using Inl by (simp add: visited_def)
      qed
      with tr show ?thesis by auto
    next
      case (Inr g)
      note gg = this
      show ?thesis
      proof (cases "ListGroupProjects ?api (group_ID g) listOptions")
        case (Inl e)
        let ?t = "enter_events root g @
                 [Log LevelError ''list projects error''
                    (group_attrs root g @ [StringAttr ''error'' (api_error_string e)])]"
        from Group_projects_failed [OF ni gg Inl, of be fuel s] Suc.prems
        have tr: "trace s' = trace s @ ?t" by auto
        have "visited rc i ?t" if "reaches rc root i" for i
        proof -
          from reaches_stops [OF that] gg Inl have "i = root" by auto
          then show ?thesis using gg Inl by (simp add: visited_def enter_events_def)
        qed
        moreover have "list_all (traversal_event rc root) ?t"
          using enter_events_traversal [of rc root g] by simp
        ultimately show ?thesis using tr by blast
      next
        case (Inr ps)
        note lp = this
        let ?s3 = "s\<lparr>trace := trace s @ enter_events root g\<rparr>"
        let ?s4 = "fold (\<lambda>p. gitClone be rc p (group_FullPath g)) ps ?s3"
        have listed: "\<forall>p \<in> set ps. listed_project rc g p"
          using gg lp by (auto simp: listed_project_def)
        from fold_gitClone_trace [OF listed, of be ?s3 root] obtain tp where
          tp: "trace ?s4 = trace s @ enter_events root g @ tp"
          and tpa: "list_all (traversal_event rc root) tp"
          and tpc: "\<forall>p \<in> set ps. cloned_at rc p (group_FullPath g) tp"
          by auto
        have vroot: "visited rc root t"
          if "set (enter_events root g @ tp) \<subseteq> set t" for t
        proof (rule visited_root)
          show "CallGetGroup root listOptions \<in> set t"
            using that by (auto simp: enter_events_def)
          show "\<forall>g' ps'. GetGroup ?api root listOptions = Inr g'
                  \<longrightarrow> ListGroupProjects ?api (group_ID g') listOptions = Inr ps'
                  \<longrightarrow> (\<forall>p \<in> set ps'. cloned_at rc p (group_FullPath g') t)"
            using gg lp tpc that by (auto intro: cloned_at_mono)
        qed
        show ?thesis
        proof (cases "ListSubGroups ?api (group_ID g) listOptions")
          case (Inl e)
          let ?t = "enter_events root g @ tp @
                   [CallListSubGroups (group_ID g) listOptions,
                    Log LevelError ''list subgroups error''
                      (group_attrs root g @ [StringAttr ''error'' (api_error_string e)])]"
          from Group_subgroups_failed [OF ni gg lp Inl, of be fuel s] Suc.prems tp
          have tr: "trace s' = trace s @ ?t" by (auto simp: emit_def)
          have "visited rc i ?t" if "reaches rc root i" for i
          proof -
            from reaches_stops [OF that] gg Inl have "i = root" by auto
            then show ?thesis using vroot [of ?t] by auto
          qed
          moreover have "list_all (traversal_event rc root) ?t"
            using enter_events_traversal [of rc root g] tpa by simp
          ultimately show ?thesis using tr by blast
        next
          case (Inr gs)
          note ls = this
          let ?s5 = "emit (CallListSubGroups (group_ID g) listOptions) ?s4"
          let ?body = "\<lambda>sg s'. Group be rc fuel (group_ID sg) s'"
          from Group_descends [OF ni gg lp ls, of be fuel s] Suc.prems
          have fe: "forEach ?body gs ?s5 = Some s'" by simp
          have ext: "\<forall>sg \<in> set gs. \<forall>sa sb. ?body sg sa = Some sb
                       \<longrightarrow> (\<exists>t. trace sb = trace sa @ t)"
            using Suc.IH by blast
          from forEach_runs [OF ext fe] obtain ts where
            ts: "trace s' = trace ?s5 @ concat ts"
            and runs: "list_all2 (\<lambda>sg t. \<exists>sa sb. ?body sg sa = Some sb \<and> trace sb = trace sa @ t)
                         gs ts"
            by blast
          have each: "list_all2 (\<lambda>sg t. list_all (traversal_event rc (group_ID sg)) t
                        \<and> (\<forall>i. reaches rc (group_ID sg) i \<longrightarrow> visited rc i t)) gs ts"
          proof (rule list_all2_mono [OF runs])
            fix sg t
            assume "\<exists>sa sb. ?body sg sa = Some sb \<and> trace sb = trace sa @ t"
            then obtain sa sb where r: "Group be rc fuel (group_ID sg) sa = Some sb"
              and e: "trace sb = trace sa @ t" by blast
            from Suc.IH [OF r] e
            show "list_all (traversal_event rc (group_ID sg)) t
                    \<and> (\<forall>i. reaches rc (group_ID sg) i \<longrightarrow> visited rc i t)"
              by auto
          qed
          let ?t = "enter_events root g @ tp @ CallListSubGroups (group_ID g) listOptions
                      # concat ts"
          have tr: "trace s' = trace s @ ?t"
            using ts tp by (simp add: emit_def)
          have sub: "listed_subgroup rc (group_ID sg)" if "sg \<in> set gs" for sg
            using ls that by (auto simp: listed_subgroup_def)
          have "list_all (traversal_event rc root) (concat ts)"
            unfolding list_all_iff
          proof
            fix e assume "e \<in> set (concat ts)"
            then obtain t where t: "t \<in> set ts" and et: "e \<in> set t" by auto
            from t obtain k where k: "k < length ts" "ts ! k = t"
              by (auto simp: in_set_conv_nth)
            from each k have "list_all (traversal_event rc (group_ID (gs ! k))) t"
              and "gs ! k \<in> set gs"
              by (auto simp: list_all2_conv_all_nth)
            with et sub show "traversal_event rc root e"
              unfolding list_all_iff by (blast intro: traversal_event_reroot)
          qed
          then have all: "list_all (traversal_event rc root) ?t"
            using enter_events_traversal [of rc root g] tpa by simp
          have "visited rc i ?t" if "reaches rc root i" for i
            using that
          proof cases
            case here
            then show ?thesis using vroot [of ?t] by auto
          next
            case (below g' ps' gs' sg)
            with gg ls have sg: "sg \<in> set gs" by auto
            then obtain k where k: "k < length gs" "gs ! k = sg"
              by (auto simp: in_set_conv_nth)
            from each k below(6) have "visited rc i (ts ! k)" and "k < length ts"
              by (auto simp: list_all2_conv_all_nth)
            then show ?thesis
              by (auto intro!: visited_mono [of rc i "ts ! k" ?t])
          qed
          with tr all show ?thesis by blast
        qed
      qed
    qed
  qed
qed

section \<open>Order and termination of the traversal\<close>

lemma Group_shape:
  assumes "Group be rc (Suc fuel) root s = Some s'"
    and ni: "root \<notin> set (ignoreGroupIDs rc)"
    and gg: "GetGroup (client rc) root listOptions = Inr g"
    and lp: "ListGroupProjects (client rc) (group_ID g) listOptions = Inr ps"
    and ls: "ListSubGroups (client rc) (group_ID g) listOptions = Inr gs"
  shows "\<exists>tp ts. trace s' = trace s @ enter_events root g @ tp
                     @ CallListSubGroups (group_ID g) listOptions # concat ts
           \<and> (\<forall>p \<in> set ps. cloned_at rc p (group_FullPath g) tp)
           \<and> (\<forall>e \<in> set tp. \<exists>p \<in> set ps. sync_event rc p (group_FullPath g) e)
           \<and> list_all2 (\<lambda>sg t. run_of be rc fuel (group_ID sg) t) gs ts"
proof -
  let ?s3 = "s\<lparr>trace := trace s @ enter_events root g\<rparr>"
  let ?s4 = "fold (\<lambda>p. gitClone be rc p (group_FullPath g)) ps ?s3"
  let ?s5 = "emit (CallListSubGroups (group_ID g) listOptions) ?s4"
  let ?body = "\<lambda>sg s'. Group be rc fuel (group_ID sg) s'"
  have listed: "\<forall>p \<in> set ps. listed_project rc g p"
    using gg lp by (auto simp: listed_project_def)
  from fold_gitClone_trace [OF listed, of be ?s3 root] obtain tp where
    tp: "trace ?s4 = trace s @ enter_events root g @ tp"
    and tps: "\<forall>e \<in> set tp. \<exists>p \<in> set ps. sync_event rc p (group_FullPath g) e"
    and tpc: "\<forall>p \<in> set ps. cloned_at rc p (group_FullPath g) tp"
    by auto
  from Group_descends [OF ni gg lp ls, of be fuel s] assms(1)
  have fe: "forEach ?body gs ?s5 = Some s'" by simp
  have ext: "\<forall>sg \<in> set gs. \<forall>sa sb. ?body sg sa = Some sb \<longrightarrow> (\<exists>t. trace sb = trace sa @ t)"
    using Group_trace by blast
  from forEach_runs [OF ext fe] obtain ts where
    ts: "trace s' = trace ?s5 @ concat ts"
    and runs: "list_all2 (\<lambda>sg t. \<exists>sa sb. ?body sg sa = Some sb \<and> trace sb = trace sa @ t) gs ts"
    by blast
  have "trace s' = trace s @ enter_events root g @ tp
          @ CallListSubGroups (group_ID g) listOptions # concat ts"
    using ts tp by (simp add: emit_def)
  moreover have "list_all2 (\<lambda>sg t. run_of be rc fuel (group_ID sg) t) gs ts"
    using runs by (simp add: run_of_def)
  ultimately show ?thesis using tpc tps by blast
qed

lemma forEach_returns:
  assumes "\<forall>x \<in> set xs. \<forall>s. \<exists>s'. body x s = Some s'"
  shows "\<exists>s'. forEach body xs s = Some s'"
  using assms
proof (induction xs arbitrary: s)
  case Nil
  then show ?case by simp
next
  case (Cons x xs)
  then obtain s1 where "body x s = Some s1" by (meson list.set_intros(1))
  moreover from Cons obtain s' where "forEach body xs s1 = Some s'"
    by (meson list.set_intros(2))
  ultimately show ?case by simp
qed

lemma forEach_stuck:
  assumes "x \<in> set xs" and "\<forall>s. body x s = None"
  shows "forEach body xs s = None"
  using assms
proof (induction xs arbitrary: s)
  case Nil
  then show ?case by simp
next
  case (Cons y ys)
  show ?case
  proof (cases "body y s")
    case None
    then show ?thesis by simp
  next
    case (Some s1)
    with Cons.prems have "x \<noteq> y" by auto
    with Cons.prems have "x \<in> set ys" by simp
    from Cons.IH [OF this Cons.prems(2)] Some show ?thesis by simp
  qed
qed

lemma uniform_fuel:
  assumes "\<forall>x \<in> set xs. \<exists>N. \<forall>n \<ge> N. P x n"
  shows "\<exists>N. \<forall>x \<in> set xs. \<forall>n \<ge> N. P x (n::nat)"
  using assms
proof (induction xs)
  case Nil
  then show ?case by simp
next
  case (Cons x xs)
  then obtain N1 where n1: "\<forall>n \<ge> N1. P x n" by (meson list.set_intros(1))
  from Cons obtain N2 where n2: "\<forall>y \<in> set xs. \<forall>n \<ge> N2. P y n"
    by (meson list.set_intros(2))
  have "\<forall>y \<in> set (x # xs). \<forall>n \<ge> max N1 N2. P y n"
    using n1 n2 by auto
  then show ?case by blast
qed

lemma Group_returns_one:
  assumes "root \<in> set (ignoreGroupIDs rc)
         \<or> (\<exists>e. GetGroup (client rc) root listOptions = Inl e)
         \<or> (\<exists>g e. GetGroup (client rc) root listOptions = Inr g
               \<and> ListGroupProjects (client rc) (group_ID g) listOptions = Inl e)
         \<or> (\<exists>g ps e. GetGroup (client rc) root listOptions = Inr g
               \<and> ListGroupProjects (client rc) (group_ID g) listOptions = Inr ps
               \<and> ListSubGroups (client rc) (group_ID g) listOptions = Inl e)"
  shows "\<exists>s'. Group be rc (Suc n) root s = Some s'"
  using assms by (auto simp: Let_def)

lemma Group_terminates:
  assumes "wf (subgroup_rel rc)"
  shows "\<exists>N. \<forall>n \<ge> N. \<forall>s. \<exists>s'. Group be rc n root s = Some s'"
  using assms
proof (induction root rule: wf_induct_rule)
  case (less root)
  let ?api = "client rc"
  let ?stop = "root \<in> set (ignoreGroupIDs rc)
         \<or> (\<exists>e. GetGroup ?api root listOptions = Inl e)
         \<or> (\<exists>g e. GetGroup ?api root listOptions = Inr g
               \<and> ListGroupProjects ?api (group_ID g) listOptions = Inl e)
         \<or> (\<exists>g ps e. GetGroup ?api root listOptions = Inr g
               \<and> ListGroupProjects ?api (group_ID g) listOptions = Inr ps
               \<and> ListSubGroups ?api (group_ID g) listOptions = Inl e)"
  show ?case
  proof (cases ?stop)
    case True
    have "\<exists>s'. Group be rc n root s = Some s'" if "n \<ge> 1" for n s
    proof -
      from that obtain m where "n = Suc m" by (cases n) auto
      with Group_returns_one [OF True, of be m s] show ?thesis by simp
    qed
    then show ?thesis by blast
  next
    case False
    then have ni: "root \<notin> set (ignoreGroupIDs rc)" by blast
    from False obtain g where gg: "GetGroup ?api root listOptions = Inr g"
      by (cases "GetGroup ?api root listOptions") auto
    from False gg obtain ps where lp: "ListGroupProjects ?api (group_ID g) listOptions = Inr ps"
      by (cases "ListGroupProjects ?api (group_ID g) listOptions") auto
    from False gg lp obtain gs where ls: "ListSubGroups ?api (group_ID g) listOptions = Inr gs"
      by (cases "ListSubGroups ?api (group_ID g) listOptions") auto
    have child: "(group_ID sg, root) \<in> subgroup_rel rc" if "sg \<in> set gs" for sg
      using gg ls that by (auto simp: subgroup_rel_def)
    have "\<forall>sg \<in> set gs. \<exists>N. \<forall>n \<ge> N. \<forall>s. \<exists>s'. Group be rc n (group_ID sg) s = Some s'"
      using less.IH [OF child] by blast
    from uniform_fuel [where P = "\<lambda>sg n. \<forall>s. \<exists>s'. Group be rc n (group_ID sg) s = Some s'",
        OF this]
    obtain N where N: "\<forall>sg \<in> set gs. \<forall>n \<ge> N. \<forall>s. \<exists>s'. Group be rc n (group_ID sg) s = Some s'"
      by blast
    have "\<exists>s'. Group be rc n root s = Some s'" if "n \<ge> Suc N" for n s
    proof -
      from that obtain m where m: "n = Suc m" "m \<ge> N" by (cases n) auto
      have "\<forall>sg \<in> set gs. \<forall>s. \<exists>s'. Group be rc m (group_ID sg) s = Some s'"
        using N m by blast
      from forEach_returns [where body = "\<lambda>sg s'. Group be rc m (group_ID sg) s'", OF this]
      show ?thesis
        unfolding m Group_descends [OF ni gg lp ls] by blast
    qed
    then show ?thesis by blast
  qed
qed

lemma Group_self_loop:
  assumes ni: "root \<notin> set (ignoreGroupIDs rc)"
    and gg: "GetGroup (client rc) root listOptions = Inr g"
    and lp: "ListGroupProjects (client rc) (group_ID g) listOptions = Inr ps"
    and ls: "ListSubGroups (client rc) (group_ID g) listOptions = Inr gs"
    and self: "sg \<in> set gs" "group_ID sg = root"
  shows "Group be rc n root s = None"
proof (induction n arbitrary: s)
  case 0
  show ?case by simp
next
  case (Suc n)
  have "\<forall>s. (\<lambda>sg s'. Group be rc n (group_ID sg) s') sg s = None"
    using Suc self by simp
  with self(1) show ?case
    unfolding Group_descends [OF ni gg lp ls]
    by (rule forEach_stuck [where body = "\<lambda>sg s'. Group be rc n (group_ID sg) s'"])
qed

section \<open>Root projects and the whole run\<close>

lemma split_slash_no_slash: "CHR ''/'' \<notin> set x \<Longrightarrow> split_slash x = [x]"
  by (induction x) auto

lemma Clean_simple_segment:
  assumes "simple_segment x"
  shows "Clean x = x"
proof -
  from assms have ne: "x \<noteq> []" and ns: "CHR ''/'' \<notin> set x"
    and nd: "x \<noteq> ''.''" "x \<noteq> ''..''"
    by (simp_all add: simple_segment_def)
  from ne ns have hd: "hd x \<noteq> CHR ''/''"
    by (cases x) auto
  have "clean_elems False [] [x] = [x]"
    using ne nd by simp
  then show ?thesis
    using ne hd by (simp add: Clean_def split_slash_no_slash [OF ns])
qed

lemma path_Join_empty_prefix:
  assumes "simple_segment x"
  shows "path_Join [[], x] = x"
proof -
  from assms have "x \<noteq> []" by (simp add: simple_segment_def)
  then show ?thesis
    using Clean_simple_segment [OF assms] by (simp add: path_Join_def)
qed

lemma Project_fetched:
  assumes "projectID \<notin> set (ignoreProjectIDs rc)"
    and "GetProject (client rc) projectID = Inr p"
  shows "Project be rc projectID s = gitClone be rc p [] (emit (CallGetProject projectID) s)"
  using assms by (simp add: Project_def)

lemma Project_trace:
  "\<exists>t. trace (Project be rc projectID s) = trace s @ t \<and> project_visited rc projectID t"
proof (cases "projectID \<in> set (ignoreProjectIDs rc)")
  case True
  then show ?thesis by (simp add: Project_def project_visited_def emit_def)
next
  case ni: False
  show ?thesis
  proof (cases "GetProject (client rc) projectID")
    case (Inl e)
    with ni show ?thesis by (simp add: Project_def project_visited_def emit_def)
  next
    case (Inr p)
    from gitClone_trace [of be rc p "[]" "emit (CallGetProject projectID) s"]
    obtain err t where
      t: "trace (gitClone be rc p [] (emit (CallGetProject projectID) s))
            = trace s @ CallGetProject projectID # clone_events rc p [] err @ t"
      by (auto simp: emit_def)
    let ?t = "CallGetProject projectID # clone_events rc p [] err @ t"
    have "project_visited rc projectID ?t"
      using Inr by (auto simp: project_visited_def cloned_at_def clone_events_def)
    with t Project_fetched [OF ni Inr, of be s] show ?thesis by auto
  qed
qed

lemma project_visited_mono:
  assumes "project_visited rc i t" and "set t \<subseteq> set t'"
  shows "project_visited rc i t'"
  using assms unfolding project_visited_def cloned_at_def by blast

lemma fold_Project_trace:
  "\<exists>t. trace (fold (\<lambda>pid. Project be rc pid) pids s) = trace s @ t
     \<and> (\<forall>pid \<in> set pids. project_visited rc pid t)"
proof (induction pids arbitrary: s)
  case Nil
  then show ?case by simp
next
  case (Cons pid pids)
  from Project_trace [of be rc pid s] obtain t1 where
    t1: "trace (Project be rc pid s) = trace s @ t1" and v1: "project_visited rc pid t1"
    by blast
  from Cons [of "Project be rc pid s"] obtain t2 where
    t2: "trace (fold (\<lambda>pid. Project be rc pid) pids (Project be rc pid s))
           = trace (Project be rc pid s) @ t2"
    and v2: "\<forall>q \<in> set pids. project_visited rc q t2" by blast
  have "trace (fold (\<lambda>pid. Project be rc pid) (pid # pids) s) = trace s @ t1 @ t2"
    using t1 t2 by simp
  moreover have "project_visited rc q (t1 @ t2)" if "q \<in> set (pid # pids)" for q
    using v1 v2 that project_visited_mono [of rc q t1 "t1 @ t2"]
      project_visited_mono [of rc q t2 "t1 @ t2"] by auto
  ultimately show ?case by blast
qed

lemma forEach_Group_trace:
  assumes "forEach (\<lambda>gid s'. Group be rc fuel gid s') gids s = Some s'"
  shows "\<exists>t. trace s' = trace s @ t
     \<and> (\<forall>root \<in> set gids. \<forall>i. reaches rc root i \<longrightarrow> visited rc i t)"
proof -
  let ?body = "\<lambda>gid s'. Group be rc fuel gid s'"
  have ext: "\<forall>gid \<in> set gids. \<forall>sa sb. ?body gid sa = Some sb \<longrightarrow> (\<exists>t. trace sb = trace sa @ t)"
    using Group_trace by blast
  from forEach_runs [OF ext assms] obtain ts where
    ts: "trace s' = trace s @ concat ts"
    and runs: "list_all2 (\<lambda>gid t. \<exists>sa sb. ?body gid sa = Some sb \<and> trace sb = trace sa @ t) gids ts"
    by blast
  have "visited rc i (concat ts)" if "root \<in> set gids" "reaches rc root i" for root i
  proof -
    from that(1) obtain k where k: "k < length gids" "gids ! k = root"
      by (auto simp: in_set_conv_nth)
    with runs obtain sa sb where r: "Group be rc fuel root sa = Some sb"
      and e: "trace sb = trace sa @ ts ! k" and kl: "k < length ts"
      by (auto simp: list_all2_conv_all_nth)
    from Group_trace [OF r] e that(2) have "visited rc i (ts ! k)" by auto
    moreover from kl have "ts ! k \<in> set ts" by simp
    then have "set (ts ! k) \<subseteq> set (concat ts)" by auto
    ultimately show ?thesis by (rule visited_mono)
  qed
  with ts show ?thesis by blast
qed


lemma run_trace:
  assumes "run be rc fuel groupIDs projectIDs s = Some s'"
  shows "\<exists>t. trace s' = trace s @ t
     \<and> (\<forall>root \<in> set groupIDs. \<forall>i. reaches rc root i \<longrightarrow> visited rc i t)
     \<and> (\<forall>pid \<in> set projectIDs. project_visited rc pid t)"
proof -
  from assms obtain s1 where
    g: "forEach (\<lambda>gid s'. Group be rc fuel gid s') groupIDs s = Some s1"
    and p: "s' = fold (\<lambda>pid. Project be rc pid) projectIDs s1"
    by (auto simp: run_def split: option.splits)
  from forEach_Group_trace [OF g] obtain t1 where
    t1: "trace s1 = trace s @ t1"
    and v1: "\<forall>root \<in> set groupIDs. \<forall>i. reaches rc root i \<longrightarrow> visited rc i t1" by blast
  from fold_Project_trace [of be rc projectIDs s1] p obtain t2 where
    t2: "trace s' = trace s1 @ t2"
    and v2: "\<forall>pid \<in> set projectIDs. project_visited rc pid t2" by blast
  have "trace s' = trace s @ t1 @ t2" using t1 t2 by simp
  moreover have "visited rc i (t1 @ t2)" if "root \<in> set groupIDs" "reaches rc root i" for root i
    using v1 that visited_mono [of rc i t1 "t1 @ t2"] by auto
  moreover have "project_visited rc pid (t1 @ t2)" if "pid \<in> set projectIDs" for pid
    using v2 that project_visited_mono [of rc pid t2 "t1 @ t2"] by auto
  ultimately show ?thesis by blast
qed

lemma run_terminates:
  assumes "wf (subgroup_rel rc)"
  shows "\<exists>N. \<forall>n \<ge> N. \<forall>s. \<exists>s'. run be rc n groupIDs projectIDs s = Some s'"
proof -
  have "\<forall>gid \<in> set groupIDs. \<exists>N. \<forall>n \<ge> N. \<forall>s. \<exists>s'. Group be rc n gid s = Some s'"
    using Group_terminates [OF assms] by blast
  from uniform_fuel [where P = "\<lambda>gid n. \<forall>s. \<exists>s'. Group be rc n gid s = Some s'", OF this]
  obtain N where N: "\<forall>gid \<in> set groupIDs. \<forall>n \<ge> N. \<forall>s. \<exists>s'. Group be rc n gid s = Some s'"
    by blast
  have "\<exists>s'. run be rc n groupIDs projectIDs s = Some s'" if "n \<ge> N" for n s
  proof -
    have "\<forall>gid \<in> set groupIDs. \<forall>s. \<exists>s'. Group be rc n gid s = Some s'"
      using N that by blast
    from forEach_returns [where body = "\<lambda>gid s'. Group be rc n gid s'", OF this]
    obtain s1 where "forEach (\<lambda>gid s'. Group be rc n gid s') groupIDs s = Some s1" by blast
    then show ?thesis by (simp add: run_def)
  qed
  then show ?thesis by blast
qed

section \<open>Destination paths\<close>

text \<open>
  Claim C6. Every clone a traversal from a root group issues is the clone of a project
  listed under a group whose metadata was fetched, and its destination is
  \<^verbatim>\<open>path.Join(destDir, path.Join(group.FullPath, project.Path))\<close>. A project given as a
  root is cloned with the empty prefix, at
  \<^verbatim>\<open>path.Join(destDir, path.Join("", project.Path))\<close>, which for a path segment that
  \<^verbatim>\<open>path.Clean\<close> leaves alone is \<^verbatim>\<open>path.Join(destDir, project.Path)\<close>: directly under
  the destination root.
\<close>

theorem destination_path_of_every_sync:
  "(\<forall>s'. Group be rc fuel root s = Some s' \<longrightarrow>
      (\<exists>t. trace s' = trace s @ t
         \<and> (\<forall>pth isBare opts r. CallPlainClone pth isBare opts r \<in> set t \<longrightarrow>
              (\<exists>g p. listed_project rc g p \<and> opts = clone_opts rc p
                 \<and> pth = path_Join [destDir rc,
                                    path_Join [group_FullPath g, project_Path p]]))))
   \<and> (\<forall>p. projectID \<notin> set (ignoreProjectIDs rc) \<longrightarrow>
          GetProject (client rc) projectID = Inr p \<longrightarrow>
          (\<exists>err t. trace (Project be rc projectID s) =
               trace s @ [CallGetProject projectID,
                          Log LevelInfo ''get repo'' (repo_attrs p []),
                          CallPlainClone (path_Join [destDir rc, path_Join [[], project_Path p]])
                            False (clone_opts rc p) err] @ t)
          \<and> (simple_segment (project_Path p) \<longrightarrow>
               path_Join [destDir rc, path_Join [[], project_Path p]]
                 = path_Join [destDir rc, project_Path p]))"
proof (intro conjI allI impI)
  fix s'
  assume "Group be rc fuel root s = Some s'"
  from Group_trace [OF this] obtain t where
    t: "trace s' = trace s @ t" and a: "list_all (traversal_event rc root) t" by blast
  have "\<exists>g p. listed_project rc g p \<and> opts = clone_opts rc p
          \<and> pth = path_Join [destDir rc, path_Join [group_FullPath g, project_Path p]]"
    if "CallPlainClone pth isBare opts r \<in> set t" for pth isBare opts r
  proof -
    from a that have "traversal_event rc root (CallPlainClone pth isBare opts r)"
      unfolding list_all_iff by blast
    then show ?thesis by (auto simp: repo_path_def)
  qed
  with t show "\<exists>t. trace s' = trace s @ t
         \<and> (\<forall>pth isBare opts r. CallPlainClone pth isBare opts r \<in> set t \<longrightarrow>
              (\<exists>g p. listed_project rc g p \<and> opts = clone_opts rc p
                 \<and> pth = path_Join [destDir rc,
                                    path_Join [group_FullPath g, project_Path p]]))"
    by blast
next
  fix p
  assume ni: "projectID \<notin> set (ignoreProjectIDs rc)"
    and gp: "GetProject (client rc) projectID = Inr p"
  from gitClone_trace [of be rc p "[]" "emit (CallGetProject projectID) s"]
  obtain err t where
    "trace (gitClone be rc p [] (emit (CallGetProject projectID) s))
       = trace s @ CallGetProject projectID # clone_events rc p [] err @ t"
    by (auto simp: emit_def)
  then show "\<exists>err t. trace (Project be rc projectID s) =
               trace s @ [CallGetProject projectID,
                          Log LevelInfo ''get repo'' (repo_attrs p []),
                          CallPlainClone (path_Join [destDir rc, path_Join [[], project_Path p]])
                            False (clone_opts rc p) err] @ t"
    unfolding Project_fetched [OF ni gp] by (auto simp: clone_events_def repo_path_def)
next
  fix p
  assume "simple_segment (project_Path p)"
  then show "path_Join [destDir rc, path_Join [[], project_Path p]]
                 = path_Join [destDir rc, project_Path p]"
    by (simp add: path_Join_empty_prefix)
qed

lemma demo_facts:
  "10 \<notin> set (ignoreGroupIDs demo_rc)"
  "GetGroup (client demo_rc) 10 listOptions = Inr \<lparr>group_ID = 10, group_FullPath = ''acme''\<rparr>"
  "ListGroupProjects (client demo_rc) 10 listOptions = Inr [alpha, secret, ghost]"
  "ListSubGroups (client demo_rc) 10 listOptions =
     Inr [\<lparr>group_ID = 12, group_FullPath = ''acme/gone''\<rparr>,
          \<lparr>group_ID = 11, group_FullPath = ''acme/tools''\<rparr>,
          \<lparr>group_ID = 13, group_FullPath = ''acme/broken''\<rparr>]"
  "GetGroup (client demo_rc) 12 listOptions = Inl (ApiError ''404 Group Not Found'')"
  "11 \<notin> set (ignoreGroupIDs demo_rc)"
  "GetGroup (client demo_rc) 11 listOptions
     = Inr \<lparr>group_ID = 11, group_FullPath = ''acme/tools''\<rparr>"
  "ListGroupProjects (client demo_rc) 11 listOptions = Inr [beta, stale]"
  "1 \<notin> set (ignoreProjectIDs demo_rc)"
  "GetProject (client demo_rc) 1 = Inr alpha"
  by (simp_all add: demo_rc_def demo_api_def)

lemma demo_group_returns:
  "\<exists>s'. Group vcs_git demo_rc 3 10 demo_state = Some s'"
proof -
  have "(case Group vcs_git demo_rc 3 10 demo_state of None \<Rightarrow> False | Some s' \<Rightarrow> True)"
    by code_simp
  then show ?thesis by (simp split: option.splits)
qed

theorem destination_path_of_every_sync_witness:
  "(\<exists>g p. listed_project demo_rc g p \<and> clone_opts demo_rc beta = clone_opts demo_rc p
       \<and> ''repos/acme/tools/beta''
           = path_Join [destDir demo_rc, path_Join [group_FullPath g, project_Path p]])
   \<and> simple_segment (project_Path alpha)
   \<and> path_Join [destDir demo_rc, project_Path alpha] = ''repos/alpha''
   \<and> (\<exists>err t. trace (Project vcs_git demo_rc 1 demo_state) =
         [CallGetProject 1, Log LevelInfo ''get repo'' (repo_attrs alpha []),
          CallPlainClone ''repos/alpha'' False (clone_opts demo_rc alpha) err] @ t)"
proof -
  have "map_option (\<lambda>s'. CallPlainClone ''repos/acme/tools/beta'' False
                             (clone_opts demo_rc beta) None \<in> set (trace s'))
          (Group vcs_git demo_rc 3 10 demo_state) = Some True"
    by code_simp
  then obtain s' where g: "Group vcs_git demo_rc 3 10 demo_state = Some s'"
    and m: "CallPlainClone ''repos/acme/tools/beta'' False (clone_opts demo_rc beta) None
              \<in> set (trace s')"
    by (cases "Group vcs_git demo_rc 3 10 demo_state") auto
  have seg: "simple_segment (project_Path alpha)" by code_simp
  have pa: "path_Join [destDir demo_rc, project_Path alpha] = ''repos/alpha''" by code_simp
  note th = destination_path_of_every_sync [of vcs_git demo_rc 3 10 demo_state 1]
  from th g m have a: "\<exists>g p. listed_project demo_rc g p
       \<and> clone_opts demo_rc beta = clone_opts demo_rc p
       \<and> ''repos/acme/tools/beta''
           = path_Join [destDir demo_rc, path_Join [group_FullPath g, project_Path p]]"
    by (fastforce simp: demo_state_def)
  from th demo_facts(9,10) seg pa
  have b: "\<exists>err t. trace (Project vcs_git demo_rc 1 demo_state) =
         [CallGetProject 1, Log LevelInfo ''get repo'' (repo_attrs alpha []),
          CallPlainClone ''repos/alpha'' False (clone_opts demo_rc alpha) err] @ t"
    by (auto simp: demo_state_def)
  from a b seg pa show ?thesis by blast
qed


section \<open>Failures do not end the run\<close>

text \<open>
  Claim C7. When the run returns, every root group, every group the traversal gets to
  from it and every root project has had its turn, whatever failed before it: its
  metadata was requested and, where the requests succeed, each listed project was handed
  to the clone. In particular when the metadata of a subgroup \<open>x\<close> cannot be fetched, a
  sibling \<open>y\<close> listed with it still has its turn. No failure makes the run not return:
  on a finite acyclic hierarchy the run returns from every state.
\<close>

theorem single_failures_never_stop_the_run:
  "(\<forall>s'. run be rc fuel groupIDs projectIDs s = Some s' \<longrightarrow>
      (\<exists>t. trace s' = trace s @ t
         \<and> (\<forall>root \<in> set groupIDs. \<forall>i. reaches rc root i \<longrightarrow> visited rc i t)
         \<and> (\<forall>pid \<in> set projectIDs. project_visited rc pid t)))
   \<and> (\<forall>s' g ps gs x y e. Group be rc fuel root s = Some s' \<longrightarrow>
          root \<notin> set (ignoreGroupIDs rc) \<longrightarrow>
          GetGroup (client rc) root listOptions = Inr g \<longrightarrow>
          ListGroupProjects (client rc) (group_ID g) listOptions = Inr ps \<longrightarrow>
          ListSubGroups (client rc) (group_ID g) listOptions = Inr gs \<longrightarrow>
          x \<in> set gs \<longrightarrow> y \<in> set gs \<longrightarrow>
          GetGroup (client rc) (group_ID x) listOptions = Inl e \<longrightarrow>
          (\<exists>t. trace s' = trace s @ t \<and> visited rc (group_ID y) t))
   \<and> (finite (subgroup_rel rc) \<longrightarrow> acyclic (subgroup_rel rc) \<longrightarrow>
        (\<exists>N. \<forall>n \<ge> N. \<forall>s0. \<exists>s'. run be rc n groupIDs projectIDs s0 = Some s'))"
proof (intro conjI allI impI)
  fix s'
  assume "run be rc fuel groupIDs projectIDs s = Some s'"
  then show "\<exists>t. trace s' = trace s @ t
         \<and> (\<forall>root \<in> set groupIDs. \<forall>i. reaches rc root i \<longrightarrow> visited rc i t)
         \<and> (\<forall>pid \<in> set projectIDs. project_visited rc pid t)"
    by (rule run_trace)
next
  fix s' g ps gs x y e
  assume r: "Group be rc fuel root s = Some s'"
    and ni: "root \<notin> set (ignoreGroupIDs rc)"
    and gg: "GetGroup (client rc) root listOptions = Inr g"
    and lp: "ListGroupProjects (client rc) (group_ID g) listOptions = Inr ps"
    and ls: "ListSubGroups (client rc) (group_ID g) listOptions = Inr gs"
    and y: "y \<in> set gs"
  have "reaches rc root (group_ID y)"
    by (rule reaches.below [OF ni gg lp ls y reaches.here])
  with Group_trace [OF r] show "\<exists>t. trace s' = trace s @ t \<and> visited rc (group_ID y) t"
    by blast
next
  assume "finite (subgroup_rel rc)" and "acyclic (subgroup_rel rc)"
  then have "wf (subgroup_rel rc)" by (rule finite_acyclic_wf)
  then show "\<exists>N. \<forall>n \<ge> N. \<forall>s0. \<exists>s'. run be rc n groupIDs projectIDs s0 = Some s'"
    by (rule run_terminates)
qed

lemma demo_subgroup_rel:
  "subgroup_rel demo_rc \<subseteq> {(12, 10), (11, 10), (13, 10), (14, 13)}"
  by (auto simp: subgroup_rel_def demo_rc_def demo_api_def split: if_splits)

lemma demo_hierarchy:
  "finite (subgroup_rel demo_rc)" "acyclic (subgroup_rel demo_rc)"
proof -
  show "finite (subgroup_rel demo_rc)"
    by (rule finite_subset [OF demo_subgroup_rel]) simp
  have "subgroup_rel demo_rc \<subseteq> measure (\<lambda>i. nat (20 - i))"
    using demo_subgroup_rel by auto
  then have "wf (subgroup_rel demo_rc)"
    by (rule wf_subset [OF wf_measure])
  then show "acyclic (subgroup_rel demo_rc)" by (rule wf_acyclic)
qed

theorem single_failures_never_stop_the_run_witness:
  "GetGroup (client demo_rc) 12 listOptions = Inl (ApiError ''404 Group Not Found'')
   \<and> (\<exists>s'. Group vcs_git demo_rc 3 10 demo_state = Some s'
         \<and> cloned_at demo_rc beta ''acme/tools'' (trace s'))
   \<and> finite (subgroup_rel demo_rc) \<and> acyclic (subgroup_rel demo_rc)
   \<and> (\<exists>N. \<forall>n \<ge> N. \<forall>s0 :: vcs state. \<exists>s'. run vcs_git demo_rc n [10] [5, 1, 7] s0 = Some s')"
proof -
  note th = single_failures_never_stop_the_run
    [of vcs_git demo_rc 3 "[10]" "[5, 1, 7]" demo_state 10]
  from demo_group_returns obtain s' where g: "Group vcs_git demo_rc 3 10 demo_state = Some s'"
    by blast
  have x: "\<lparr>group_ID = 12, group_FullPath = ''acme/gone''\<rparr>
             \<in> set [\<lparr>group_ID = 12, group_FullPath = ''acme/gone''\<rparr>,
                    \<lparr>group_ID = 11, group_FullPath = ''acme/tools''\<rparr>,
                    \<lparr>group_ID = 13, group_FullPath = ''acme/broken''\<rparr>]"
    and y: "\<lparr>group_ID = 11, group_FullPath = ''acme/tools''\<rparr>
             \<in> set [\<lparr>group_ID = 12, group_FullPath = ''acme/gone''\<rparr>,
                    \<lparr>group_ID = 11, group_FullPath = ''acme/tools''\<rparr>,
                    \<lparr>group_ID = 13, group_FullPath = ''acme/broken''\<rparr>]"
    by simp_all
  from th g demo_facts(1,2) demo_facts(3,4) [simplified] x y demo_facts(5)
  have "\<exists>t. trace s' = trace demo_state @ t \<and> visited demo_rc 11 t"
    by (metis (no_types, lifting) group.select_convs(1))
  then have "visited demo_rc 11 (trace s')" by (simp add: demo_state_def)
  with demo_facts(6,7,8) have "cloned_at demo_rc beta ''acme/tools'' (trace s')"
    by (simp add: visited_def)
  with g have a: "\<exists>s'. Group vcs_git demo_rc 3 10 demo_state = Some s'
         \<and> cloned_at demo_rc beta ''acme/tools'' (trace s')" by blast
  from single_failures_never_stop_the_run
    [of vcs_git demo_rc 3 "[10]" "[5, 1, 7]" demo_state 10] demo_hierarchy
  have b: "\<exists>N. \<forall>n \<ge> N. \<forall>s0 :: vcs state. \<exists>s'. run vcs_git demo_rc n [10] [5, 1, 7] s0 = Some s'"
    by blast
  from a b demo_facts(5) demo_hierarchy show ?thesis by blast
qed


section \<open>Termination and order\<close>

text \<open>
  Claim C8. When the hierarchy the service lists is finite and acyclic, \<^verbatim>\<open>Group\<close>
  returns for every root, from every state, given enough depth. The order is depth
  first, projects before subgroups: for a group whose three requests succeed the trace
  is the entry events, then the syncs of its direct projects and nothing else, then the
  subgroup listing, then one stretch per listed subgroup, in the listed order, each
  stretch a complete call of \<^verbatim>\<open>Group\<close> on that subgroup. Nothing detects a cycle: when a
  group lists itself, \<^verbatim>\<open>Group\<close> returns for no depth.
\<close>

theorem Group_terminates_on_acyclic_hierarchy_depth_first:
  "(finite (subgroup_rel rc) \<longrightarrow> acyclic (subgroup_rel rc) \<longrightarrow>
      (\<exists>N. \<forall>n \<ge> N. \<forall>s0. \<exists>s'. Group be rc n root s0 = Some s'))
   \<and> (\<forall>s' g ps gs. Group be rc (Suc fuel) root s = Some s' \<longrightarrow>
          root \<notin> set (ignoreGroupIDs rc) \<longrightarrow>
          GetGroup (client rc) root listOptions = Inr g \<longrightarrow>
          ListGroupProjects (client rc) (group_ID g) listOptions = Inr ps \<longrightarrow>
          ListSubGroups (client rc) (group_ID g) listOptions = Inr gs \<longrightarrow>
          (\<exists>tp ts. trace s' = trace s @ enter_events root g @ tp
                       @ CallListSubGroups (group_ID g) listOptions # concat ts
             \<and> (\<forall>p \<in> set ps. cloned_at rc p (group_FullPath g) tp)
             \<and> (\<forall>e \<in> set tp. \<exists>p \<in> set ps. sync_event rc p (group_FullPath g) e)
             \<and> list_all2 (\<lambda>sg t. run_of be rc fuel (group_ID sg) t) gs ts))
   \<and> (\<forall>g ps gs sg. root \<notin> set (ignoreGroupIDs rc) \<longrightarrow>
          GetGroup (client rc) root listOptions = Inr g \<longrightarrow>
          ListGroupProjects (client rc) (group_ID g) listOptions = Inr ps \<longrightarrow>
          ListSubGroups (client rc) (group_ID g) listOptions = Inr gs \<longrightarrow>
          sg \<in> set gs \<longrightarrow> group_ID sg = root \<longrightarrow>
          (\<forall>n s0. Group be rc n root s0 = None))"
proof (intro conjI allI impI)
  assume "finite (subgroup_rel rc)" and "acyclic (subgroup_rel rc)"
  then have "wf (subgroup_rel rc)" by (rule finite_acyclic_wf)
  then show "\<exists>N. \<forall>n \<ge> N. \<forall>s0. \<exists>s'. Group be rc n root s0 = Some s'"
    by (rule Group_terminates)
next
  fix s' g ps gs
  assume "Group be rc (Suc fuel) root s = Some s'"
    and "root \<notin> set (ignoreGroupIDs rc)"
    and "GetGroup (client rc) root listOptions = Inr g"
    and "ListGroupProjects (client rc) (group_ID g) listOptions = Inr ps"
    and "ListSubGroups (client rc) (group_ID g) listOptions = Inr gs"
  then show "\<exists>tp ts. trace s' = trace s @ enter_events root g @ tp
                       @ CallListSubGroups (group_ID g) listOptions # concat ts
             \<and> (\<forall>p \<in> set ps. cloned_at rc p (group_FullPath g) tp)
             \<and> (\<forall>e \<in> set tp. \<exists>p \<in> set ps. sync_event rc p (group_FullPath g) e)
             \<and> list_all2 (\<lambda>sg t. run_of be rc fuel (group_ID sg) t) gs ts"
    by (rule Group_shape)
next
  fix g ps gs sg n s0
  assume "root \<notin> set (ignoreGroupIDs rc)"
    and "GetGroup (client rc) root listOptions = Inr g"
    and "ListGroupProjects (client rc) (group_ID g) listOptions = Inr ps"
    and "ListSubGroups (client rc) (group_ID g) listOptions = Inr gs"
    and "sg \<in> set gs" and "group_ID sg = root"
  then show "Group be rc n root s0 = None"
    by (rule Group_self_loop)
qed

lemma loop_facts:
  "1 \<notin> set (ignoreGroupIDs loop_rc)"
  "GetGroup (client loop_rc) 1 listOptions = Inr \<lparr>group_ID = 1, group_FullPath = ''ring''\<rparr>"
  "ListGroupProjects (client loop_rc) 1 listOptions = Inr []"
  "ListSubGroups (client loop_rc) 1 listOptions = Inr [\<lparr>group_ID = 1, group_FullPath = ''ring''\<rparr>]"
  by (simp_all add: loop_rc_def loop_api_def)

theorem Group_terminates_on_acyclic_hierarchy_depth_first_witness:
  "finite (subgroup_rel demo_rc) \<and> acyclic (subgroup_rel demo_rc)
   \<and> (\<exists>N. \<forall>n \<ge> N. \<forall>s0 :: vcs state. \<exists>s'. Group vcs_git demo_rc n 10 s0 = Some s')
   \<and> (\<exists>s' tp ts. Group vcs_git demo_rc 3 10 demo_state = Some s'
         \<and> trace s' = enter_events 10 \<lparr>group_ID = 10, group_FullPath = ''acme''\<rparr> @ tp
                        @ CallListSubGroups 10 listOptions # concat ts
         \<and> cloned_at demo_rc ghost ''acme'' tp \<and> length ts = 3
         \<and> run_of vcs_git demo_rc 2 11 (ts ! 1))
   \<and> ListSubGroups (client loop_rc) 1 listOptions
        = Inr [\<lparr>group_ID = 1, group_FullPath = ''ring''\<rparr>]
   \<and> Group vcs_git loop_rc 50 1 demo_state = None"
proof -
  note th = Group_terminates_on_acyclic_hierarchy_depth_first
  from th [of demo_rc vcs_git 10] demo_hierarchy
  have a: "\<exists>N. \<forall>n \<ge> N. \<forall>s0 :: vcs state. \<exists>s'. Group vcs_git demo_rc n 10 s0 = Some s'"
    by blast
  from demo_group_returns obtain s' where g: "Group vcs_git demo_rc 3 10 demo_state = Some s'"
    by blast
  have three: "(3::nat) = Suc 2" by simp
  from th [of demo_rc vcs_git 10 2 demo_state] g [unfolded three]
    demo_facts(1,2) demo_facts(3,4) [simplified]
  obtain tp ts where
    tr: "trace s' = enter_events 10 \<lparr>group_ID = 10, group_FullPath = ''acme''\<rparr> @ tp
                        @ CallListSubGroups 10 listOptions # concat ts"
    and cl: "\<forall>p \<in> set [alpha, secret, ghost]. cloned_at demo_rc p ''acme'' tp"
    and runs: "list_all2 (\<lambda>sg t. run_of vcs_git demo_rc 2 (group_ID sg) t)
                 [\<lparr>group_ID = 12, group_FullPath = ''acme/gone''\<rparr>,
                  \<lparr>group_ID = 11, group_FullPath = ''acme/tools''\<rparr>,
                  \<lparr>group_ID = 13, group_FullPath = ''acme/broken''\<rparr>] ts"
    by (fastforce simp: demo_state_def)
  from runs have len: "length ts = 3" by (auto dest: list_all2_lengthD)
  from runs have r1: "run_of vcs_git demo_rc 2 11 (ts ! 1)"
    by (auto simp: list_all2_conv_all_nth dest: spec [of _ 1])
  from cl have gh: "cloned_at demo_rc ghost ''acme'' tp" by simp
  from g tr gh len r1
  have b: "\<exists>s' tp ts. Group vcs_git demo_rc 3 10 demo_state = Some s'
         \<and> trace s' = enter_events 10 \<lparr>group_ID = 10, group_FullPath = ''acme''\<rparr> @ tp
                        @ CallListSubGroups 10 listOptions # concat ts
         \<and> cloned_at demo_rc ghost ''acme'' tp \<and> length ts = 3
         \<and> run_of vcs_git demo_rc 2 11 (ts ! 1)"
    by blast
  have self: "\<lparr>group_ID = 1, group_FullPath = ''ring''\<rparr>
                \<in> set [\<lparr>group_ID = 1, group_FullPath = ''ring''\<rparr>]"
    "group_ID \<lparr>group_ID = 1, group_FullPath = ''ring''\<rparr> = 1"
    by simp_all
  from th [of loop_rc vcs_git 1] loop_facts(1,2) loop_facts(3,4) [simplified] self
  have c: "Group vcs_git loop_rc 50 1 demo_state = None"
    by (metis (no_types, lifting) group.select_convs(1))
  from a b c demo_hierarchy loop_facts(4) show ?thesis by blast
qed

section \<open>Pagination\<close>

text \<open>
  Claim C10. Every listing request a traversal sends carries \<open>listOptions\<close>: no page
  number, 1000 per page, ordered by name ascending. Every clone is of a project that the
  answer to such a request contains, and every group visited is the root or is contained
  in the answer to such a request: what the service would only return on a later page is
  never cloned and never visited.
\<close>

theorem only_the_first_page_is_requested:
  "(\<forall>s'. Group be rc fuel root s = Some s' \<longrightarrow>
      (\<exists>t. trace s' = trace s @ t
         \<and> (\<forall>i opts. CallListGroupProjects i opts \<in> set t \<longrightarrow> opts = listOptions)
         \<and> (\<forall>i opts. CallListSubGroups i opts \<in> set t \<longrightarrow> opts = listOptions)
         \<and> (\<forall>i opts. CallGetGroup i opts \<in> set t \<longrightarrow>
               opts = listOptions \<and> (i = root \<or> listed_subgroup rc i))
         \<and> (\<forall>pth isBare opts r. CallPlainClone pth isBare opts r \<in> set t \<longrightarrow>
               (\<exists>g p. listed_project rc g p \<and> pth = repo_path rc p (group_FullPath g)
                  \<and> opts = clone_opts rc p))))
   \<and> Page listOptions = 0 \<and> PerPage listOptions = 1000
   \<and> OrderBy listOptions = ''name'' \<and> Sort listOptions = ''asc''"
proof (intro conjI allI impI)
  fix s'
  assume "Group be rc fuel root s = Some s'"
  from Group_trace [OF this] obtain t where
    t: "trace s' = trace s @ t" and a: "list_all (traversal_event rc root) t" by blast
  have ev: "traversal_event rc root e" if "e \<in> set t" for e
    using a that unfolding list_all_iff by blast
  have "opts = listOptions" if "CallListGroupProjects i opts \<in> set t" for i opts
    using ev [OF that] by simp
  moreover have "opts = listOptions" if "CallListSubGroups i opts \<in> set t" for i opts
    using ev [OF that] by simp
  moreover have "opts = listOptions \<and> (i = root \<or> listed_subgroup rc i)"
    if "CallGetGroup i opts \<in> set t" for i opts
    using ev [OF that] by simp
  moreover have "\<exists>g p. listed_project rc g p \<and> pth = repo_path rc p (group_FullPath g)
                  \<and> opts = clone_opts rc p"
    if "CallPlainClone pth isBare opts r \<in> set t" for pth isBare opts r
    using ev [OF that] by simp
  ultimately show "\<exists>t. trace s' = trace s @ t
         \<and> (\<forall>i opts. CallListGroupProjects i opts \<in> set t \<longrightarrow> opts = listOptions)
         \<and> (\<forall>i opts. CallListSubGroups i opts \<in> set t \<longrightarrow> opts = listOptions)
         \<and> (\<forall>i opts. CallGetGroup i opts \<in> set t \<longrightarrow>
               opts = listOptions \<and> (i = root \<or> listed_subgroup rc i))
         \<and> (\<forall>pth isBare opts r. CallPlainClone pth isBare opts r \<in> set t \<longrightarrow>
               (\<exists>g p. listed_project rc g p \<and> pth = repo_path rc p (group_FullPath g)
                  \<and> opts = clone_opts rc p))"
    using t by blast
qed (simp_all add: listOptions_def)

theorem only_the_first_page_is_requested_witness:
  "ListGroupProjects (client paged_rc) 20 (listOptions\<lparr>Page := 2\<rparr>) = Inr [beta]
   \<and> (\<exists>s'. Group vcs_git paged_rc 2 20 demo_state = Some s'
         \<and> CallListGroupProjects 20 listOptions \<in> set (trace s')
         \<and> CallListGroupProjects 20 (listOptions\<lparr>Page := 2\<rparr>) \<notin> set (trace s')
         \<and> list_ex (clones_from (project_SSHURLToRepo alpha)) (trace s')
         \<and> \<not> list_ex (clones_from (project_SSHURLToRepo beta)) (trace s'))"
proof -
  have "map_option (\<lambda>s'. (CallListGroupProjects 20 listOptions \<in> set (trace s'),
                          list_ex (clones_from (project_SSHURLToRepo alpha)) (trace s'),
                          list_ex (clones_from (project_SSHURLToRepo beta)) (trace s')))
          (Group vcs_git paged_rc 2 20 demo_state) = Some (True, True, False)"
    by code_simp
  then obtain s' where g: "Group vcs_git paged_rc 2 20 demo_state = Some s'"
    and l: "CallListGroupProjects 20 listOptions \<in> set (trace s')"
    and ca: "list_ex (clones_from (project_SSHURLToRepo alpha)) (trace s')"
    and cb: "\<not> list_ex (clones_from (project_SSHURLToRepo beta)) (trace s')"
    by (cases "Group vcs_git paged_rc 2 20 demo_state") auto
  have ne: "listOptions\<lparr>Page := 2\<rparr> \<noteq> listOptions"
    by (simp add: listOptions_def)
  from only_the_first_page_is_requested [of vcs_git paged_rc 2 20 demo_state] g ne
  have np: "CallListGroupProjects 20 (listOptions\<lparr>Page := 2\<rparr>) \<notin> set (trace s')"
    by (fastforce simp: demo_state_def)
  have pg: "ListGroupProjects (client paged_rc) 20 (listOptions\<lparr>Page := 2\<rparr>) = Inr [beta]"
    by (simp add: paged_rc_def paged_api_def listOptions_def)
  from g l ca cb np pg show ?thesis by blast
qed

end
